theory Spec2Isabelle
  imports Main "HOL-Library.Sublist"
begin

section \<open>Python strings\<close>

text \<open>
  A Python \<open>str\<close> is a sequence of code points. It is modelled as a \<open>string\<close> in which
  every \<open>char\<close> stands for the code point of the same number (0 to 255). The three
  string methods that \<open>agent.py\<close> calls are written out for these code points:
  \<open>str.isspace\<close> holds for tab, line feed, vertical tab, form feed, carriage return,
  the four separators 28 to 31, the space, NEL (133) and the no-break space (160);
  \<open>str.lower\<close> maps A to Z and the upper-case letters 192 to 222 (without the
  multiplication sign 215) to the letter 32 places later.
\<close>

definition isspace :: "char \<Rightarrow> bool" where
  "isspace c = (let n = (of_char c :: nat) in
     (9 \<le> n \<and> n \<le> 13) \<or> (28 \<le> n \<and> n \<le> 32) \<or> n = 133 \<or> n = 160)"

definition lstrip :: "string \<Rightarrow> string" where
  "lstrip s = dropWhile isspace s"

definition rstrip :: "string \<Rightarrow> string" where
  "rstrip s = rev (dropWhile isspace (rev s))"

definition strip :: "string \<Rightarrow> string" where
  "strip s = rstrip (lstrip s)"

definition lower_char :: "char \<Rightarrow> char" where
  "lower_char c = (let n = (of_char c :: nat) in
     if (65 \<le> n \<and> n \<le> 90) \<or> (192 \<le> n \<and> n \<le> 222 \<and> n \<noteq> 215)
     then char_of (n + 32) else c)"

definition lower :: "string \<Rightarrow> string" where
  "lower s = map lower_char s"

definition startswith :: "string \<Rightarrow> string \<Rightarrow> bool" where
  "startswith s p = (take (length p) s = p)"

section \<open>The normalizer of \<open>agent.py\<close>\<close>

text \<open>
  \<^verbatim>\<open>
  def _ensure_mermaid_header(mermaid_code: str) -> str:
      stripped = mermaid_code.strip()
      if stripped.lower().startswith("flowchart"):
          return stripped
      return f"flowchart TD\n{stripped}"
  \<close>
\<close>

definition ensure_mermaid_header :: "string \<Rightarrow> string" where
  "ensure_mermaid_header mermaid_code =
     (let stripped = strip mermaid_code in
      if startswith (lower stripped) ''flowchart'' then stripped
      else ''flowchart TD\<newline>'' @ stripped)"

subsection \<open>The words of the specification\<close>

text \<open>
  The specification speaks of the trimmed input and of an input that begins,
  case-insensitively, with the keyword. Both notions are written down here on their
  own, without \<open>strip\<close>, \<open>lower\<close> or \<open>startswith\<close>, so that the normalizer can be
  compared with them.

  \<open>trimmed_of s t\<close>: \<open>t\<close> is \<open>s\<close> without a run of white space at each end, and no
  white space is left at either end of \<open>t\<close>.

  \<open>begins_with_keyword t\<close>: the first nine characters of \<open>t\<close> spell \<open>flowchart\<close>, each
  letter in lower or in upper case.
\<close>

definition trimmed_of :: "string \<Rightarrow> string \<Rightarrow> bool" where
  "trimmed_of s t = (\<exists>l r. s = l @ t @ r \<and> list_all isspace l \<and> list_all isspace r \<and>
      (t = [] \<or> (\<not> isspace (hd t) \<and> \<not> isspace (last t))))"

definition same_letter :: "char \<Rightarrow> char \<Rightarrow> bool" where
  "same_letter c k = (c = k \<or> (of_char c :: nat) + 32 = of_char k)"

definition begins_with_keyword :: "string \<Rightarrow> bool" where
  "begins_with_keyword t = list_all2 same_letter (take 9 t) ''flowchart''"

section \<open>The artefacts of \<open>models.py\<close>\<close>

text \<open>
  The three pydantic models. \<open>FlowchartResult\<close> has a field \<open>mermaid_code\<close> of its
  own; it is called \<open>final_mermaid_code\<close> here, since two records of one theory cannot
  share a field name. \<open>Path\<close> is \<open>pathlib.Path\<close> applied to the given string.
\<close>

record FlowchartDraft =
  mermaid_code :: string
  rationale :: string

record FlowchartCritique =
  is_satisfactory :: bool
  revision_guidance :: string

datatype path = Path string

record FlowchartResult =
  prompt :: string
  final_mermaid_code :: string
  html_path :: "path option"

section \<open>Exceptions\<close>

text \<open>
  An exception has a class, the text that \<open>str\<close> gives for it, and the cause set by
  \<open>raise ... from\<close>. Only the classes that the code tells apart are named; any other
  class is \<open>OtherError\<close> with its name.
\<close>

datatype exc_class = ValidationError | ValueError | AttributeError | OtherError string

datatype exn = Exn (exc_type: exc_class) (exc_str: string) (exc_cause: "exn option")

section \<open>The presenter of \<open>renderer.py\<close>\<close>

text \<open>
  The template is compiled with \<open>from_string\<close> in an environment whose autoescape is
  \<open>select_autoescape(["html"])\<close>. A template made from a string has no name, and for
  such a template \<open>select_autoescape\<close> answers with its \<open>default_for_string\<close>, which
  is true: both occurrences of \<open>{{ mermaid_code }}\<close> are passed through the HTML
  escape of markupsafe. Jinja drops the single newline that ends the template source.
\<close>

definition html_escape_char :: "char \<Rightarrow> string" where
  "html_escape_char c =
     (if c = CHR ''&'' then ''&amp;''
      else if c = CHR ''<'' then ''&lt;''
      else if c = CHR ''>'' then ''&gt;''
      else if c = CHR 0x27 then ''&#39;''
      else if c = CHR 0x22 then ''&#34;''
      else [c])"

definition html_escape :: "string \<Rightarrow> string" where
  "html_escape s = concat (map html_escape_char s)"

definition template_head :: string where
  \<open>template_head =
    ''<!DOCTYPE html>\<newline>'' @
    ''<html lang="en">\<newline>'' @
    ''  <head>\<newline>'' @
    ''    <meta charset="utf-8" />\<newline>'' @
    ''    <title>Flowchart</title>\<newline>'' @
    ''    <script type="module">\<newline>'' @
    ''      import mermaid from "https://cdn.jsdelivr.net/npm/mermaid@10/dist/mermaid.esm.min.mjs";\<newline>'' @
    ''      mermaid.initialize({ startOnLoad: true, securityLevel: "loose" });\<newline>'' @
    ''    </script>\<newline>'' @
    ''    <style>\<newline>'' @
    ''      body { font-family: system-ui, sans-serif; background: #f8f9fb; margin: 0; padding: 2rem; }\<newline>'' @
    ''      .container { background: #fff; padding: 1.5rem; border-radius: 12px; box-shadow: 0 8px 24px rgba(0, 0, 0, 0.08); }\<newline>'' @
    ''      pre { background: #1e1f22; color: #f5f5f5; padding: 1rem; border-radius: 8px; overflow-x: auto; }\<newline>'' @
    ''    </style>\<newline>'' @
    ''  </head>\<newline>'' @
    ''  <body>\<newline>'' @
    ''    <div class="container">\<newline>'' @
    ''      <h1>Flowchart Diagram</h1>\<newline>'' @
    ''      <div class="mermaid">\<newline>''\<close>

definition template_middle :: string where
  \<open>template_middle =
    ''\<newline>'' @
    ''      </div>\<newline>'' @
    ''      <h2>Source</h2>\<newline>'' @
    ''      <pre><code>''\<close>

definition template_tail :: string where
  \<open>template_tail =
    ''</code></pre>\<newline>'' @
    ''    </div>\<newline>'' @
    ''  </body>\<newline>'' @
    ''</html>''\<close>

definition render_template :: "string \<Rightarrow> string" where
  "render_template code =
     template_head @ html_escape code @ template_middle @ html_escape code @ template_tail"

section \<open>The world outside the loop\<close>

text \<open>
  The language model is an outside service with a state of its own (type \<open>'s\<close>): every
  chain takes the fields of its prompt and the service's state, and gives back either
  the parsed value or the exception it raised, with the service's new state. Nothing
  is assumed about it. The file system is a map from paths to texts, with the
  exception that writing a path raises, if it raises one.

  The field \<open>trace\<close> is not in the source: it records, in order, every call that a
  run makes to a chain or to the presenter, with what the chain answered, so that the
  number and the order of the calls can be spoken of.
\<close>

datatype event =
    DraftCall string "exn + FlowchartDraft"
  | CritiqueCall string string string "exn + FlowchartCritique"
  | ReviseCall string string string "exn + FlowchartDraft"
  | PresenterCall string string

record 's world =
  llm :: 's
  files :: "path \<rightharpoonup> string"
  write_error :: "path \<rightharpoonup> exn"
  trace :: "event list"

text \<open>
  \<^verbatim>\<open>
  def write_mermaid_html(mermaid_code: str, output_path: Path | str) -> Path:
      target = Path(output_path)
      template = _ENV.from_string("""...""")
      rendered = template.render(mermaid_code=mermaid_code)
      target.write_text(rendered, encoding="utf-8")
      return target
  \<close>
\<close>

definition write_mermaid_html ::
  "string \<Rightarrow> string \<Rightarrow> 's world \<Rightarrow> (exn + path) \<times> 's world" where
  "write_mermaid_html code output_path w =
     (let target = Path output_path;
          rendered = render_template code;
          w1 = w\<lparr>trace := trace w @ [PresenterCall code output_path]\<rparr>
      in case write_error w target of
           Some e \<Rightarrow> (Inl e, w1)
         | None \<Rightarrow> (Inr target, w1\<lparr>files := (files w1)(target \<mapsto> rendered)\<rparr>))"

section \<open>The agent of \<open>agent.py\<close>\<close>

text \<open>
  \<open>self\<close>: the iteration budget of the configuration and the three chains built in
  \<open>__init__\<close>. The \<open>config\<close> argument of \<open>run\<close> is handed to every chain unchanged and
  is part of the chain here.
\<close>

record 's FlowchartAgent =
  max_iterations :: int
  draft_chain :: "string \<Rightarrow> 's \<Rightarrow> (exn + FlowchartDraft) \<times> 's"
  critique_chain :: "string \<Rightarrow> string \<Rightarrow> string \<Rightarrow> 's \<Rightarrow> (exn + FlowchartCritique) \<times> 's"
  revision_chain :: "string \<Rightarrow> string \<Rightarrow> string \<Rightarrow> 's \<Rightarrow> (exn + FlowchartDraft) \<times> 's"

text \<open>
  \<^verbatim>\<open>
  def _draft(self, user_prompt, *, config):
      try:
          result = self._draft_chain.invoke({"user_prompt": user_prompt}, config=config)
      except ValidationError as exc:
          raise ValueError(f"Draft generation failed: {exc}") from exc
      result.mermaid_code = _ensure_mermaid_header(result.mermaid_code)
      return result
  \<close>
\<close>

definition draft ::
  "'s FlowchartAgent \<Rightarrow> string \<Rightarrow> 's world \<Rightarrow> (exn + FlowchartDraft) \<times> 's world" where
  "draft self user_prompt w =
     (case draft_chain self user_prompt (llm w) of (r, s) \<Rightarrow>
        let w1 = w\<lparr>llm := s, trace := trace w @ [DraftCall user_prompt r]\<rparr> in
        (case r of
          Inl exc \<Rightarrow>
            if exc_type exc = ValidationError
            then (Inl (Exn ValueError (''Draft generation failed: '' @ exc_str exc) (Some exc)), w1)
            else (Inl exc, w1)
        | Inr result \<Rightarrow>
            (Inr (result\<lparr>mermaid_code := ensure_mermaid_header (mermaid_code result)\<rparr>), w1)))"

text \<open>
  \<^verbatim>\<open>
  def _critique(self, user_prompt, mermaid_code, rationale, *, config):
      try:
          return self._critique_chain.invoke({...}, config=config)
      except ValidationError as exc:
          raise ValueError(f"Critique parsing failed: {exc}") from exc
  \<close>
\<close>

definition critique ::
  "'s FlowchartAgent \<Rightarrow> string \<Rightarrow> string \<Rightarrow> string \<Rightarrow> 's world \<Rightarrow>
     (exn + FlowchartCritique) \<times> 's world" where
  "critique self user_prompt code rat w =
     (case critique_chain self user_prompt code rat (llm w) of (r, s) \<Rightarrow>
        let w1 = w\<lparr>llm := s, trace := trace w @ [CritiqueCall user_prompt code rat r]\<rparr> in
        (case r of
          Inl exc \<Rightarrow>
            if exc_type exc = ValidationError
            then (Inl (Exn ValueError (''Critique parsing failed: '' @ exc_str exc) (Some exc)), w1)
            else (Inl exc, w1)
        | Inr result \<Rightarrow> (Inr result, w1)))"

text \<open>
  \<^verbatim>\<open>
  def _revise(self, user_prompt, mermaid_code, critique, *, config):
      try:
          result = self._revision_chain.invoke({...}, config=config)
      except ValidationError as exc:
          raise ValueError(f"Revision parsing failed: {exc}") from exc
      result.mermaid_code = _ensure_mermaid_header(result.mermaid_code)
      return result
  \<close>
\<close>

definition revise ::
  "'s FlowchartAgent \<Rightarrow> string \<Rightarrow> string \<Rightarrow> string \<Rightarrow> 's world \<Rightarrow>
     (exn + FlowchartDraft) \<times> 's world" where
  "revise self user_prompt code guidance w =
     (case revision_chain self user_prompt code guidance (llm w) of (r, s) \<Rightarrow>
        let w1 = w\<lparr>llm := s, trace := trace w @ [ReviseCall user_prompt code guidance r]\<rparr> in
        (case r of
          Inl exc \<Rightarrow>
            if exc_type exc = ValidationError
            then (Inl (Exn ValueError (''Revision parsing failed: '' @ exc_str exc) (Some exc)), w1)
            else (Inl exc, w1)
        | Inr result \<Rightarrow>
            (Inr (result\<lparr>mermaid_code := ensure_mermaid_header (mermaid_code result)\<rparr>), w1)))"

text \<open>
  \<^verbatim>\<open>
  def _finalize(self, user_prompt, mermaid_code, save_html, output_path):
      html_path = None
      if save_html:
          html_path = write_mermaid_html(mermaid_code, output_path=output_path)
      return FlowchartResult(prompt=user_prompt, mermaid_code=mermaid_code.strip(),
                             html_path=html_path)
  \<close>
\<close>

definition finalize ::
  "string \<Rightarrow> string \<Rightarrow> bool \<Rightarrow> string \<Rightarrow> 's world \<Rightarrow> (exn + FlowchartResult) \<times> 's world" where
  "finalize user_prompt code save_html output_path w =
     (if save_html then
        (case write_mermaid_html code output_path w of
           (Inl e, w1) \<Rightarrow> (Inl e, w1)
         | (Inr p, w1) \<Rightarrow>
             (Inr \<lparr>prompt = user_prompt, final_mermaid_code = strip code, html_path = Some p\<rparr>, w1))
      else
        (Inr \<lparr>prompt = user_prompt, final_mermaid_code = strip code, html_path = None\<rparr>, w))"

text \<open>
  \<^verbatim>\<open>
  def run(self, user_prompt, *, save_html=True, output_path=..., config=None):
      draft = self._draft(user_prompt, config=config)
      for iteration in range(self.config.max_iterations):
          critique = self._critique(user_prompt, draft.mermaid_code, draft.rationale, config=config)
          if critique.is_satisfactory:
              return self._finalize(user_prompt, draft.mermaid_code, save_html, output_path)
          draft = self._revise(user_prompt, draft.mermaid_code, critique.revision_guidance, config=config)
      # Return the most recent draft if we exit due to iteration limit.
      return self._finalize(user_prompt, draft.mermaid_code, save_html, output_path)
  \<close>
  The body of the \<open>for\<close> loop does not read \<open>iteration\<close>, so \<open>run_loop\<close> counts the
  passes that are left; \<open>range(n)\<close> is empty for \<open>n \<le> 0\<close>, which is \<open>nat n = 0\<close>.
\<close>

fun run_loop ::
  "'s FlowchartAgent \<Rightarrow> string \<Rightarrow> bool \<Rightarrow> string \<Rightarrow> nat \<Rightarrow> FlowchartDraft \<Rightarrow> 's world \<Rightarrow>
     (exn + FlowchartResult) \<times> 's world" where
  "run_loop self user_prompt save_html output_path 0 d w =
     finalize user_prompt (mermaid_code d) save_html output_path w"
| "run_loop self user_prompt save_html output_path (Suc n) d w =
     (case critique self user_prompt (mermaid_code d) (rationale d) w of
        (Inl e, w1) \<Rightarrow> (Inl e, w1)
      | (Inr c, w1) \<Rightarrow>
          if is_satisfactory c
          then finalize user_prompt (mermaid_code d) save_html output_path w1
          else (case revise self user_prompt (mermaid_code d) (revision_guidance c) w1 of
                  (Inl e, w2) \<Rightarrow> (Inl e, w2)
                | (Inr d', w2) \<Rightarrow> run_loop self user_prompt save_html output_path n d' w2))"

definition run ::
  "'s FlowchartAgent \<Rightarrow> string \<Rightarrow> bool \<Rightarrow> string \<Rightarrow> 's world \<Rightarrow>
     (exn + FlowchartResult) \<times> 's world" where
  "run self user_prompt save_html output_path w =
     (case draft self user_prompt w of
        (Inl e, w1) \<Rightarrow> (Inl e, w1)
      | (Inr d, w1) \<Rightarrow>
          run_loop self user_prompt save_html output_path (nat (max_iterations self)) d w1)"

section \<open>The graph variant of \<open>agent_langgraph.py\<close>\<close>

text \<open>
  \<open>str.find\<close> and \<open>str.rfind\<close> give the lowest and the highest index at which the
  substring starts, or -1; \<open>slice s a b\<close> is \<open>s[a:b]\<close> for indices that are not
  negative; \<open>join_lines\<close> is \<open>"\n".join\<close>.
\<close>

definition occurrences :: "string \<Rightarrow> string \<Rightarrow> nat list" where
  "occurrences s sub = filter (\<lambda>i. startswith (drop i s) sub) [0..<Suc (length s)]"

definition find_str :: "string \<Rightarrow> string \<Rightarrow> int" where
  "find_str s sub = (case occurrences s sub of [] \<Rightarrow> - 1 | i # _ \<Rightarrow> int i)"

definition rfind :: "string \<Rightarrow> string \<Rightarrow> int" where
  "rfind s sub = (case rev (occurrences s sub) of [] \<Rightarrow> - 1 | i # _ \<Rightarrow> int i)"

definition slice :: "string \<Rightarrow> int \<Rightarrow> int \<Rightarrow> string" where
  "slice s a b = take (nat b - nat a) (drop (nat a) s)"

fun join_lines :: "string list \<Rightarrow> string" where
  "join_lines [] = []"
| "join_lines [x] = x"
| "join_lines (x # y # ys) = x @ ''\<newline>'' @ join_lines (y # ys)"

fun str_nat :: "nat \<Rightarrow> string" where
  "str_nat n = (if n < 10 then [char_of (48 + n)] else str_nat (n div 10) @ [char_of (48 + n mod 10)])"

definition str_int :: "int \<Rightarrow> string" where
  "str_int i = (if i < 0 then ''-'' @ str_nat (nat (- i)) else str_nat (nat i))"

text \<open>
  \<open>str_int\<close> is \<open>str\<close> of an integer, as the f-strings use it.

  The state of the graph and the structured answer of the reflector. The fields
  \<open>mermaid_code\<close> of \<open>AgentState\<close> and \<open>is_satisfactory\<close> of \<open>Reflection\<close> are called
  \<open>state_mermaid_code\<close> and \<open>satisfactory\<close> here, since the records of \<open>models.py\<close>
  have fields of these names. \<open>reflection_output\<close> is \<open>NotRequired\<close>: a key that may
  be absent.
\<close>

record Reflection =
  satisfactory :: bool
  critique_or_suggestion :: string

record AgentState =
  user_input :: string
  state_mermaid_code :: string
  critique_history :: "string list"
  revision_number :: int
  reflection_output :: "Reflection option"

text \<open>
  A node returns a dictionary with some of the keys; the graph merges it into the
  state. \<open>critique_history\<close> is declared \<open>Annotated[List[str], add]\<close>, so its update is
  added at the end of the list; every other key that is present replaces the old
  value. Both nodes always return the key \<open>critique_history\<close>.
\<close>

record StateUpdate =
  new_mermaid_code :: "string option"
  new_revision_number :: "int option"
  new_critique_history :: "string list"
  new_reflection_output :: "Reflection option"

definition apply_update :: "AgentState \<Rightarrow> StateUpdate \<Rightarrow> AgentState" where
  "apply_update st u =
     st\<lparr>state_mermaid_code :=
          (case new_mermaid_code u of None \<Rightarrow> state_mermaid_code st | Some c \<Rightarrow> c),
        revision_number :=
          (case new_revision_number u of None \<Rightarrow> revision_number st | Some n \<Rightarrow> n),
        critique_history := critique_history st @ new_critique_history u,
        reflection_output :=
          (case new_reflection_output u of None \<Rightarrow> reflection_output st | Some r \<Rightarrow> Some r)\<rparr>"

text \<open>
  The module-level \<open>llm\<close> is used by two chains: \<open>prompt | llm\<close>, whose answer has a
  \<open>content\<close> that is a string or a list of content blocks, and
  \<open>reflection_prompt | llm.with_structured_output(Reflection)\<close>. The trace records
  their calls, and \<open>checkpoints\<close> the states that the \<open>MemorySaver\<close> of the compiled
  graph stores, one after every node.
\<close>

datatype content = StrContent string | BlockContent

datatype graph_event =
    GenerateCall string string string "exn + content"
  | ReflectCall string string "exn + Reflection"

record 's graph_world =
  graph_llm :: 's
  graph_trace :: "graph_event list"
  checkpoints :: "AgentState list"

record 's graph_chains =
  mermaid_chain :: "string \<Rightarrow> string \<Rightarrow> string \<Rightarrow> 's \<Rightarrow> (exn + content) \<times> 's"
  reflection_chain :: "string \<Rightarrow> string \<Rightarrow> 's \<Rightarrow> (exn + Reflection) \<times> 's"

text \<open>The two system prompts of \<open>generate_mermaid\<close>.\<close>

definition revise_system_prompt :: "string \<Rightarrow> string" where
  "revise_system_prompt history_context =
     ''You are an expert Mermaid code generator. The user wants a Mermaid flowchart to represent their request. '' @
     ''Your previous attempt was critiqued. Use the following critique history to revise the code. '' @
     ''Output ONLY the complete, corrected Mermaid code block, enclosed in triple backticks and the '' @
     [CHR 0x27] @ ''mermaid'' @ [CHR 0x27] @ '' language tag. '' @
     ''Ensure the output is a `graph TD` or `graph LR` flowchart, using node shapes like [], () etc.'' @
     ''\<newline>\<newline>CRITIQUE HISTORY:\<newline>'' @ history_context"

definition first_system_prompt :: string where
  "first_system_prompt =
     ''You are an expert Mermaid code generator. Your task is to convert the user'' @ [CHR 0x27] @
     ''s request, which may be '' @
     ''natural language, code, or other text, into a clean, syntactically correct Mermaid flowchart. '' @
     ''Output ONLY the complete Mermaid code block, enclosed in triple backticks and the '' @
     [CHR 0x27] @ ''mermaid'' @ [CHR 0x27] @ '' language tag. '' @
     ''Ensure the output is a `graph TD` or `graph LR` flowchart, using node shapes like [], () etc''"

text \<open>
  \<^verbatim>\<open>
  code_block_start = response.content.find("```mermaid")
  code_block_end = response.content.rfind("```")
  if code_block_start != -1 and code_block_end != -1 and code_block_end > code_block_start:
      generated_code = response.content[code_block_start + len("```mermaid"):code_block_end].strip()
  else:
      generated_code = response.content.strip()
  \<close>
\<close>

definition extract_code :: "string \<Rightarrow> string" where
  "extract_code text =
     (let code_block_start = find_str text ''```mermaid'';
          code_block_end = rfind text ''```''
      in if code_block_start \<noteq> - 1 \<and> code_block_end \<noteq> - 1 \<and> code_block_end > code_block_start
         then strip (slice text (code_block_start + int (length ''```mermaid'')) code_block_end)
         else strip text)"

text \<open>
  \<open>generate_mermaid\<close>: the call of the chain is outside the \<open>try\<close>, so its exception
  leaves the node; the extraction is inside it. On a string the extraction cannot fail;
  on a list of content blocks \<open>find\<close> raises the \<open>AttributeError\<close> whose text the
  \<open>except\<close> branch writes into the history.
\<close>

definition generate_mermaid ::
  "'s graph_chains \<Rightarrow> AgentState \<Rightarrow> 's graph_world \<Rightarrow> (exn + StateUpdate) \<times> 's graph_world" where
  "generate_mermaid cs st w =
     (let history_context = join_lines (critique_history st);
          system_prompt = (if revision_number st > 0 then revise_system_prompt history_context
                           else first_system_prompt)
      in case mermaid_chain cs system_prompt (user_input st) (state_mermaid_code st) (graph_llm w) of
        (r, s) \<Rightarrow>
          let w1 = w\<lparr>graph_llm := s,
                     graph_trace := graph_trace w @
                       [GenerateCall system_prompt (user_input st) (state_mermaid_code st) r]\<rparr>
          in (case r of
               Inl e \<Rightarrow> (Inl e, w1)
             | Inr (StrContent text) \<Rightarrow>
                 (Inr \<lparr>new_mermaid_code = Some (extract_code text),
                       new_revision_number = Some (revision_number st + 1),
                       new_critique_history =
                         [''Revision '' @ str_int (revision_number st + 1) @ '' generated.''],
                       new_reflection_output = None\<rparr>, w1)
             | Inr BlockContent \<Rightarrow>
                 (Inr \<lparr>new_mermaid_code = Some [],
                       new_revision_number = Some (revision_number st + 1),
                       new_critique_history =
                         [''Extraction failed. Error: '' @ [CHR 0x27] @ ''list'' @ [CHR 0x27] @
                          '' object has no attribute '' @ [CHR 0x27] @ ''find'' @ [CHR 0x27] @
                          ''. Attempting to fix in next revision.''],
                       new_reflection_output = None\<rparr>, w1)))"

text \<open>
  \<open>reflect_on_mermaid\<close>: the call of the chain is inside the \<open>try\<close>; any exception
  becomes an unsatisfactory reflection that forces another round.
\<close>

definition reflect_on_mermaid ::
  "'s graph_chains \<Rightarrow> AgentState \<Rightarrow> 's graph_world \<Rightarrow> StateUpdate \<times> 's graph_world" where
  "reflect_on_mermaid cs st w =
     (case reflection_chain cs (user_input st) (state_mermaid_code st) (graph_llm w) of
        (r, s) \<Rightarrow>
          let w1 = w\<lparr>graph_llm := s,
                     graph_trace := graph_trace w @
                       [ReflectCall (user_input st) (state_mermaid_code st) r]\<rparr>
          in (case r of
               Inr reflection_result \<Rightarrow>
                 (\<lparr>new_mermaid_code = None, new_revision_number = None,
                   new_critique_history = [critique_or_suggestion reflection_result],
                   new_reflection_output = Some reflection_result\<rparr>, w1)
             | Inl e \<Rightarrow>
                 (let error_critique = ''ERROR: Reflection failed with exception: '' @ exc_str e @
                                       ''. Forcing refinement.''
                  in (\<lparr>new_mermaid_code = None, new_revision_number = None,
                       new_critique_history = [error_critique],
                       new_reflection_output =
                         Some \<lparr>satisfactory = False, critique_or_suggestion = error_critique\<rparr>\<rparr>, w1))))"

text \<open>
  \<^verbatim>\<open>
  def should_continue(state):
      reflection = state.get('reflection_output')
      if reflection and reflection.is_satisfactory:
          return "end"
      if state['revision_number'] >= MAX_REVISIONS:
          return "end"
      return "generate"
  \<close>
\<close>

definition MAX_REVISIONS :: int where
  "MAX_REVISIONS = 3"

definition should_continue :: "AgentState \<Rightarrow> string" where
  "should_continue st =
     (if (case reflection_output st of None \<Rightarrow> False | Some reflection \<Rightarrow> satisfactory reflection)
      then ''end''
      else if revision_number st \<ge> MAX_REVISIONS then ''end''
      else ''generate'')"

text \<open>
  The workflow of \<open>create_agent_workflow\<close>: the entry point is \<open>generate\<close>, an edge
  leads from \<open>generate\<close> to \<open>reflect\<close>, and \<open>should_continue\<close> routes from \<open>reflect\<close>
  back to \<open>generate\<close> or to the end. \<open>invoke_graph\<close> is \<open>app.invoke\<close> on this graph;
  it terminates because every round raises \<open>revision_number\<close> by one. The engine's
  own limit on the number of steps (25 by default) is not part of the model: from the
  initial state of the module a run takes six steps at most.
\<close>

function invoke_graph ::
  "'s graph_chains \<Rightarrow> AgentState \<Rightarrow> 's graph_world \<Rightarrow> (exn + AgentState) \<times> 's graph_world" where
  "invoke_graph cs st w =
     (case generate_mermaid cs st w of
        (Inl e, w1) \<Rightarrow> (Inl e, w1)
      | (Inr u1, w1) \<Rightarrow>
          (let st1 = apply_update st u1 in
           (case reflect_on_mermaid cs st1 (w1\<lparr>checkpoints := checkpoints w1 @ [st1]\<rparr>) of
              (u2, w2) \<Rightarrow>
                (let st2 = apply_update st1 u2 in
                 if should_continue st2 = ''generate''
                 then invoke_graph cs st2 (w2\<lparr>checkpoints := checkpoints w2 @ [st2]\<rparr>)
                 else (Inr st2, w2\<lparr>checkpoints := checkpoints w2 @ [st2]\<rparr>)))))"
  by pat_completeness auto

termination
proof (relation "measure (\<lambda>(cs, st, w). nat (MAX_REVISIONS - revision_number st))", goal_cases)
  case 1
  show ?case by simp
next
  case (2 cs st w x1 x2 u1 st1 u2 w2 st2)
  from 2 have g: "generate_mermaid cs st w = (Inr u1, x2)" by simp
  from 2 have r: "reflect_on_mermaid cs st1 (x2\<lparr>checkpoints := checkpoints x2 @ [st1]\<rparr>) = (u2, w2)"
    by simp
  have g': "new_revision_number u1 = Some (revision_number st + 1)"
    using g by (auto simp: generate_mermaid_def Let_def split: prod.splits sum.splits content.splits)
  have r': "new_revision_number u2 = None"
    using r by (auto simp: reflect_on_mermaid_def Let_def split: prod.splits sum.splits)
  have "revision_number st2 = revision_number st + 1"
    using 2(3,5) g' r' by (simp add: apply_update_def)
  moreover have "revision_number st2 < MAX_REVISIONS"
    using 2(6) by (auto simp: should_continue_def split: if_splits)
  ultimately show ?case by simp
qed

declare invoke_graph.simps [simp del]

section \<open>Reading a trace\<close>

text \<open>
  The events that a run adds to the trace, the kind of each event, the exception a
  chain raised (if it raised one), and the drafts that the chains returned, in the
  form in which \<open>_draft\<close> and \<open>_revise\<close> store them (header ensured).
\<close>

definition run_events :: "'s world \<Rightarrow> 's world \<Rightarrow> event list" where
  "run_events w w' = drop (length (trace w)) (trace w')"

fun is_draft_call :: "event \<Rightarrow> bool" where
  "is_draft_call (DraftCall _ _) = True"
| "is_draft_call _ = False"

fun is_critique_call :: "event \<Rightarrow> bool" where
  "is_critique_call (CritiqueCall _ _ _ _) = True"
| "is_critique_call _ = False"

fun is_revise_call :: "event \<Rightarrow> bool" where
  "is_revise_call (ReviseCall _ _ _ _) = True"
| "is_revise_call _ = False"

fun is_presenter_call :: "event \<Rightarrow> bool" where
  "is_presenter_call (PresenterCall _ _) = True"
| "is_presenter_call _ = False"

definition draft_calls :: "event list \<Rightarrow> nat" where
  "draft_calls tr = length (filter is_draft_call tr)"

definition critique_calls :: "event list \<Rightarrow> nat" where
  "critique_calls tr = length (filter is_critique_call tr)"

definition revise_calls :: "event list \<Rightarrow> nat" where
  "revise_calls tr = length (filter is_revise_call tr)"

definition presenter_calls :: "event list \<Rightarrow> nat" where
  "presenter_calls tr = length (filter is_presenter_call tr)"

fun raised :: "event \<Rightarrow> exn option" where
  "raised (DraftCall _ (Inl e)) = Some e"
| "raised (CritiqueCall _ _ _ (Inl e)) = Some e"
| "raised (ReviseCall _ _ _ (Inl e)) = Some e"
| "raised _ = None"

fun unsatisfactory :: "event \<Rightarrow> bool" where
  "unsatisfactory (CritiqueCall _ _ _ (Inr c)) = (\<not> is_satisfactory c)"
| "unsatisfactory _ = True"

fun phase_label :: "event \<Rightarrow> string" where
  "phase_label (DraftCall _ _) = ''Draft generation failed: ''"
| "phase_label (CritiqueCall _ _ _ _) = ''Critique parsing failed: ''"
| "phase_label (ReviseCall _ _ _ _) = ''Revision parsing failed: ''"
| "phase_label (PresenterCall _ _) = []"

definition stored :: "FlowchartDraft \<Rightarrow> FlowchartDraft" where
  "stored d = d\<lparr>mermaid_code := ensure_mermaid_header (mermaid_code d)\<rparr>"

fun produced :: "event \<Rightarrow> FlowchartDraft list" where
  "produced (DraftCall _ (Inr d)) = [stored d]"
| "produced (ReviseCall _ _ _ (Inr d)) = [stored d]"
| "produced _ = []"

definition drafts_produced :: "event list \<Rightarrow> FlowchartDraft list" where
  "drafts_produced tr = concat (map produced tr)"



section \<open>A scripted completion service\<close>

text \<open>
  A stand-in for the language model, as a test would inject it: it answers the calls
  from two lists, the texts of the generations and the verdicts of the critiques,
  each in order, whatever the prompt is; an entry can also be an exception, which the
  call then raises, and a call raises once its list is used up. The same
  script drives the chains of \<open>agent.py\<close> and those of \<open>agent_langgraph.py\<close>.
\<close>

record script =
  generations :: "(exn + string) list"
  verdicts :: "(exn + bool \<times> string) list"

definition script_exhausted :: exn where
  "script_exhausted = Exn (OtherError ''StopIteration'') [] None"

definition next_draft :: "script \<Rightarrow> (exn + FlowchartDraft) \<times> script" where
  "next_draft s =
     (case generations s of
        [] \<Rightarrow> (Inl script_exhausted, s)
      | Inl e # gs \<Rightarrow> (Inl e, s\<lparr>generations := gs\<rparr>)
      | Inr g # gs \<Rightarrow> (Inr \<lparr>mermaid_code = g, rationale = []\<rparr>, s\<lparr>generations := gs\<rparr>))"

definition next_critique :: "script \<Rightarrow> (exn + FlowchartCritique) \<times> script" where
  "next_critique s =
     (case verdicts s of
        [] \<Rightarrow> (Inl script_exhausted, s)
      | Inl e # vs \<Rightarrow> (Inl e, s\<lparr>verdicts := vs\<rparr>)
      | Inr (b, t) # vs \<Rightarrow>
          (Inr \<lparr>is_satisfactory = b, revision_guidance = t\<rparr>, s\<lparr>verdicts := vs\<rparr>))"

definition next_content :: "script \<Rightarrow> (exn + content) \<times> script" where
  "next_content s =
     (case generations s of
        [] \<Rightarrow> (Inl script_exhausted, s)
      | Inl e # gs \<Rightarrow> (Inl e, s\<lparr>generations := gs\<rparr>)
      | Inr g # gs \<Rightarrow> (Inr (StrContent g), s\<lparr>generations := gs\<rparr>))"

definition next_reflection :: "script \<Rightarrow> (exn + Reflection) \<times> script" where
  "next_reflection s =
     (case verdicts s of
        [] \<Rightarrow> (Inl script_exhausted, s)
      | Inl e # vs \<Rightarrow> (Inl e, s\<lparr>verdicts := vs\<rparr>)
      | Inr (b, t) # vs \<Rightarrow>
          (Inr \<lparr>satisfactory = b, critique_or_suggestion = t\<rparr>, s\<lparr>verdicts := vs\<rparr>))"

definition scripted_agent :: "int \<Rightarrow> script FlowchartAgent" where
  "scripted_agent n =
     \<lparr>max_iterations = n,
      draft_chain = (\<lambda>_. next_draft),
      critique_chain = (\<lambda>_ _ _. next_critique),
      revision_chain = (\<lambda>_ _ _. next_draft)\<rparr>"

definition scripted_graph :: "script graph_chains" where
  "scripted_graph =
     \<lparr>mermaid_chain = (\<lambda>_ _ _. next_content),
      reflection_chain = (\<lambda>_ _. next_reflection)\<rparr>"

definition fresh_world :: "script \<Rightarrow> script world" where
  "fresh_world s = \<lparr>llm = s, files = Map.empty, write_error = Map.empty, trace = []\<rparr>"

definition fresh_graph_world :: "script \<Rightarrow> script graph_world" where
  "fresh_graph_world s = \<lparr>graph_llm = s, graph_trace = [], checkpoints = []\<rparr>"

definition initial_state :: "string \<Rightarrow> AgentState" where
  "initial_state request =
     \<lparr>user_input = request, state_mermaid_code = [], critique_history = [],
      revision_number = 0, reflection_output = None\<rparr>"

section \<open>The shape of a run\<close>

text \<open>
  The calls that \<open>run\<close> can make are described once, as a relation, so that every
  property of a run is proved by induction over it. \<open>reraised ev e\<close> is the exception
  that leaves \<open>_draft\<close>, \<open>_critique\<close> or \<open>_revise\<close> when the chain of the call \<open>ev\<close>
  raised \<open>e\<close>. \<open>loop_shape p n d evs x\<close>: a loop with \<open>n\<close> passes left and the current
  draft \<open>d\<close> can make the calls \<open>evs\<close> and then either fail with an exception (\<open>x\<close> is
  \<open>Inl\<close>) or go on to finalize a draft (\<open>x\<close> is \<open>Inr\<close>). \<open>run_shape\<close> puts the first
  draft call in front, and \<open>handed_on\<close> ties the shape to the result and the world
  that the function returns.
\<close>

definition reraised :: "event \<Rightarrow> exn \<Rightarrow> exn" where
  "reraised ev e =
     (if exc_type e = ValidationError
      then Exn ValueError (phase_label ev @ exc_str e) (Some e) else e)"

inductive loop_shape ::
  "string \<Rightarrow> nat \<Rightarrow> FlowchartDraft \<Rightarrow> event list \<Rightarrow> exn + FlowchartDraft \<Rightarrow> bool"
  for p :: string where
  budget_spent: "loop_shape p 0 d [] (Inr d)"
| critique_raised:
    "ev = CritiqueCall p (mermaid_code d) (rationale d) (Inl e) \<Longrightarrow>
     loop_shape p (Suc n) d [ev] (Inl (reraised ev e))"
| satisfied:
    "is_satisfactory c \<Longrightarrow>
     loop_shape p (Suc n) d [CritiqueCall p (mermaid_code d) (rationale d) (Inr c)] (Inr d)"
| revision_raised:
    "\<not> is_satisfactory c \<Longrightarrow>
     ev = ReviseCall p (mermaid_code d) (revision_guidance c) (Inl e) \<Longrightarrow>
     loop_shape p (Suc n) d
       [CritiqueCall p (mermaid_code d) (rationale d) (Inr c), ev] (Inl (reraised ev e))"
| revised:
    "\<not> is_satisfactory c \<Longrightarrow>
     loop_shape p n (stored d') evs x \<Longrightarrow>
     loop_shape p (Suc n) d
       (CritiqueCall p (mermaid_code d) (rationale d) (Inr c) #
        ReviseCall p (mermaid_code d) (revision_guidance c) (Inr d') # evs) x"

text \<open>What the loop hands on: a failure, or the draft that is finalized.\<close>

definition handed_on ::
  "string \<Rightarrow> bool \<Rightarrow> string \<Rightarrow> 's world \<Rightarrow> event list \<Rightarrow> exn + FlowchartDraft \<Rightarrow>
   (exn + FlowchartResult) \<times> 's world \<Rightarrow> bool" where
  "handed_on p sh out w evs x res =
     (case x of
        Inl e \<Rightarrow> fst res = Inl e \<and> trace (snd res) = trace w @ evs \<and>
                 files (snd res) = files w \<and> write_error (snd res) = write_error w
      | Inr d \<Rightarrow> (\<exists>w1. trace w1 = trace w @ evs \<and> files w1 = files w \<and>
                 write_error w1 = write_error w \<and>
                 res = finalize p (mermaid_code d) sh out w1))"


definition run_shape :: "string \<Rightarrow> nat \<Rightarrow> event list \<Rightarrow> exn + FlowchartDraft \<Rightarrow> bool" where
  "run_shape p n evs x =
     ((\<exists>e. evs = [DraftCall p (Inl e)] \<and> x = Inl (reraised (DraftCall p (Inl e)) e)) \<or>
      (\<exists>v evs'. evs = DraftCall p (Inr v) # evs' \<and> loop_shape p n (stored v) evs' x))"

section \<open>Example runs\<close>


definition script_two_rounds :: script where
  "script_two_rounds =
     \<lparr>generations = [Inr ''A-->B'', Inr ''flowchart LR\<newline>A-->C'', Inr '' FLOWCHART LR\<newline>A-->D ''],
      verdicts = [Inr (False, ''add C''), Inr (False, ''add D'')]\<rparr>"

definition script_satisfied :: script where
  "script_satisfied =
     \<lparr>generations = [Inr ''A-->B'', Inr ''flowchart LR\<newline>A-->C''],
      verdicts = [Inr (True, ''fine''), Inr (False, ''add C'')]\<rparr>"


definition network_error :: exn where
  "network_error = Exn (OtherError ''APIConnectionError'') ''Connection error.'' None"


definition script_no_network :: script where
  "script_no_network =
     \<lparr>generations = [Inr ''A-->B'', Inl network_error, Inr ''flowchart LR\<newline>A-->C''],
      verdicts = [Inr (False, ''add C''), Inr (True, ''fine'')]\<rparr>"



definition run_two_rounds :: "(exn + FlowchartResult) \<times> script world" where
  "run_two_rounds = run (scripted_agent 2) ''req'' False ''out.html'' (fresh_world script_two_rounds)"

definition run_satisfied :: "(exn + FlowchartResult) \<times> script world" where
  "run_satisfied = run (scripted_agent 3) ''req'' True ''out.html'' (fresh_world script_satisfied)"


definition run_no_network :: "(exn + FlowchartResult) \<times> script world" where
  "run_no_network = run (scripted_agent 3) ''req'' True ''out.html'' (fresh_world script_no_network)"

section \<open>The two variants side by side\<close>

text \<open>
  \<open>one_more a b\<close>: the history of \<open>b\<close> is the history of \<open>a\<close> with one entry added at
  the end. \<open>generate_calls\<close> and \<open>reflect_calls\<close> count the calls of the two chains of
  the graph.
\<close>

definition one_more :: "AgentState \<Rightarrow> AgentState \<Rightarrow> bool" where
  "one_more a b = (\<exists>entry. critique_history b = critique_history a @ [entry])"



text \<open>
  Scripts on which the two variants are compared, what each variant returns as its
  final content, the chain-based agent with its default budget of three and the graph
  from its initial state, and a state and two updates with which one step of each node
  is shown.
\<close>

definition script_never :: script where
  "script_never =
     \<lparr>generations = [Inr ''flowchart TD\<newline>A-->B'', Inr ''flowchart TD\<newline>A-->C'',
                      Inr ''flowchart TD\<newline>A-->D'', Inr ''flowchart TD\<newline>A-->E''],
      verdicts = [Inr (False, ''add C''), Inr (False, ''add D''), Inr (False, ''add E''),
                  Inr (False, ''add F'')]\<rparr>"








definition resumed_state :: AgentState where
  "resumed_state = (initial_state ''req'')\<lparr>critique_history := [''kept'']\<rparr>"

definition first_update :: StateUpdate where
  "first_update =
     \<lparr>new_mermaid_code = Some ''flowchart TD\<newline>A-->B'', new_revision_number = Some 1,
      new_critique_history = [''Revision 1 generated.''], new_reflection_output = None\<rparr>"

definition first_reflection :: StateUpdate where
  "first_reflection =
     \<lparr>new_mermaid_code = None, new_revision_number = None,
      new_critique_history = [''add C''],
      new_reflection_output = Some \<lparr>satisfactory = False, critique_or_suggestion = ''add C''\<rparr>\<rparr>"

section \<open>Trimming and the keyword test\<close>

lemma rstrip_split: "\<exists>r. s = rstrip s @ r \<and> list_all isspace r"
proof -
  have "rev s = takeWhile isspace (rev s) @ dropWhile isspace (rev s)" by simp
  then have "rev (rev s) = rev (takeWhile isspace (rev s) @ dropWhile isspace (rev s))"
    by simp
  then have "s = rev (dropWhile isspace (rev s)) @ rev (takeWhile isspace (rev s))"
    by (simp only: rev_append rev_rev_ident)
  moreover have "list_all isspace (rev (takeWhile isspace (rev s)))"
    by (auto simp: list_all_iff dest: set_takeWhileD)
  ultimately show ?thesis unfolding rstrip_def by blast
qed

lemma lstrip_split: "\<exists>l. s = l @ lstrip s \<and> list_all isspace l"
proof -
  have "s = takeWhile isspace s @ dropWhile isspace s" by simp
  moreover have "list_all isspace (takeWhile isspace s)"
    by (auto simp: list_all_iff dest: set_takeWhileD)
  ultimately show ?thesis unfolding lstrip_def by blast
qed

lemma rstrip_last: "rstrip s \<noteq> [] \<Longrightarrow> \<not> isspace (last (rstrip s))"
proof -
  assume "rstrip s \<noteq> []"
  then have ne: "dropWhile isspace (rev s) \<noteq> []" by (simp add: rstrip_def)
  then have "\<not> isspace (hd (dropWhile isspace (rev s)))" by (rule hd_dropWhile)
  with ne show ?thesis by (simp add: rstrip_def last_rev)
qed

lemma lstrip_hd: "lstrip s \<noteq> [] \<Longrightarrow> \<not> isspace (hd (lstrip s))"
  unfolding lstrip_def by (rule hd_dropWhile)

lemma rstrip_hd: "rstrip s \<noteq> [] \<Longrightarrow> hd (rstrip s) = hd s"
proof -
  assume ne: "rstrip s \<noteq> []"
  obtain r where "s = rstrip s @ r" using rstrip_split by blast
  then have "hd s = hd (rstrip s @ r)" by simp
  with ne show ?thesis by simp
qed



lemma keyword_codes:
  assumes "k \<in> set ''flowchart''"
  shows "97 \<le> (of_char k :: nat) \<and> (of_char k :: nat) \<le> 122"
  using assms by (elim disjE | simp)+

lemma lower_char_letter:
  assumes "k \<in> set ''flowchart''"
  shows "lower_char c = k \<longleftrightarrow> same_letter c k"
proof -
  define n where "n = (of_char c :: nat)"
  define m where "m = (of_char k :: nat)"
  have k: "97 \<le> m" "m \<le> 122" using keyword_codes [OF assms] by (simp_all add: m_def)
  have ck: "c = k \<longleftrightarrow> n = m" by (simp add: n_def m_def)
  show ?thesis
  proof (cases "(65 \<le> n \<and> n \<le> 90) \<or> (192 \<le> n \<and> n \<le> 222 \<and> n \<noteq> 215)")
    case True
    then have "lower_char c = char_of (n + 32)" by (simp add: lower_char_def n_def)
    moreover have "(char_of (n + 32) = k) = ((n + 32) mod 256 = m)"
      unfolding m_def by (simp add: char_of_eq_iff take_bit_eq_mod)
    moreover have "(n + 32) mod 256 = n + 32" using True by auto
    moreover have "n \<noteq> m" using True k by auto
    ultimately show ?thesis by (simp add: same_letter_def ck n_def [symmetric] m_def [symmetric])
  next
    case False
    have "lower_char c = (if (65 \<le> n \<and> n \<le> 90) \<or> (192 \<le> n \<and> n \<le> 222 \<and> n \<noteq> 215)
        then char_of (n + 32) else c)"
      by (simp add: lower_char_def Let_def n_def)
    with False have "lower_char c = c" by (simp only: if_False)
    moreover have "n + 32 \<noteq> m" using False k by auto
    ultimately show ?thesis by (simp add: same_letter_def ck n_def [symmetric] m_def [symmetric])
  qed
qed


lemma startswith_keyword: "startswith (lower t) ''flowchart'' \<longleftrightarrow> begins_with_keyword t"
proof -
  have "startswith (lower t) ''flowchart'' \<longleftrightarrow> map lower_char (take 9 t) = ''flowchart''"
  proof -
    have "length ''flowchart'' = 9" by simp
    then show ?thesis by (simp only: startswith_def lower_def take_map)
  qed
  also have "\<dots> \<longleftrightarrow> list_all2 (\<lambda>c k. lower_char c = k) (take 9 t) ''flowchart''"
    by (simp only: list_all2_map1 [symmetric] list.rel_eq)
  also have "\<dots> \<longleftrightarrow> list_all2 same_letter (take 9 t) ''flowchart''"
    by (rule list.rel_cong) (simp_all only: lower_char_letter)
  finally show ?thesis by (simp add: begins_with_keyword_def)
qed


lemma strip_trimmed: "trimmed_of s (strip s)"
proof -
  obtain l where l: "s = l @ lstrip s" "list_all isspace l" using lstrip_split by blast
  obtain r where r: "lstrip s = strip s @ r" "list_all isspace r"
    using rstrip_split [of "lstrip s"] unfolding strip_def by blast
  have e: "strip s = [] \<or> (\<not> isspace (hd (strip s)) \<and> \<not> isspace (last (strip s)))"
  proof (cases "strip s = []")
    case True then show ?thesis by simp
  next
    case False
    then have ne: "rstrip (lstrip s) \<noteq> []" by (simp add: strip_def)
    then have "lstrip s \<noteq> []" by (auto simp: rstrip_def)
    then have "\<not> isspace (hd (lstrip s))" by (rule lstrip_hd)
    with rstrip_hd [OF ne] rstrip_last [OF ne] show ?thesis by (simp add: strip_def)
  qed
  from l r have "s = l @ strip s @ r" by simp
  with l(2) r(2) e show ?thesis unfolding trimmed_of_def by blast
qed

lemma lstrip_unchanged: "t \<noteq> [] \<Longrightarrow> \<not> isspace (hd t) \<Longrightarrow> lstrip t = t"
  by (cases t) (simp_all add: lstrip_def)

lemma rstrip_append_kept:
  assumes "t \<noteq> []" "\<not> isspace (last t)"
  shows "rstrip (t @ r) = t @ rstrip r"
proof -
  have "rev t \<noteq> []" "\<not> isspace (hd (rev t))"
    using assms by (simp_all add: hd_rev)
  then have h: "dropWhile isspace (rev t) = rev t"
    by (cases "rev t") simp_all
  have "dropWhile isspace (rev r @ rev t) =
        (if \<forall>x\<in>set (rev r). isspace x then dropWhile isspace (rev t)
         else dropWhile isspace (rev r) @ rev t)"
    by (rule dropWhile_append)
  moreover have "(\<forall>x\<in>set (rev r). isspace x) \<Longrightarrow> dropWhile isspace (rev r) = []"
    by simp
  ultimately have "dropWhile isspace (rev r @ rev t) = dropWhile isspace (rev r) @ rev t"
    using h by (simp split: if_splits)
  then show ?thesis by (simp add: rstrip_def)
qed

lemma rstrip_spaces: "list_all isspace r \<Longrightarrow> rstrip r = []"
  by (simp add: rstrip_def list_all_iff)

lemma lstrip_spaces_append: "list_all isspace l \<Longrightarrow> lstrip (l @ t) = lstrip t"
  by (simp add: lstrip_def list_all_iff dropWhile_append)

lemma trimmed_unique:
  assumes "trimmed_of s t"
  shows "t = strip s"
proof -
  obtain l r where s: "s = l @ t @ r" and l: "list_all isspace l" and r: "list_all isspace r"
    and t: "t = [] \<or> (\<not> isspace (hd t) \<and> \<not> isspace (last t))"
    using assms unfolding trimmed_of_def by blast
  have 1: "lstrip s = lstrip (t @ r)" using s l by (simp add: lstrip_spaces_append)
  show ?thesis
  proof (cases "t = []")
    case True
    then have "lstrip s = []" using 1 r by (simp add: lstrip_def list_all_iff)
    then show ?thesis using True by (simp add: strip_def rstrip_def)
  next
    case False
    with t have ht: "\<not> isspace (hd t)" and lt: "\<not> isspace (last t)" by auto
    have "lstrip (t @ r) = t @ r" using False ht by (simp add: lstrip_unchanged)
    with 1 have "strip s = rstrip (t @ r)" by (simp add: strip_def)
    also have "\<dots> = t @ rstrip r" using False lt by (rule rstrip_append_kept)
    also have "\<dots> = t" using r by (simp add: rstrip_spaces)
    finally show ?thesis by simp
  qed
qed

lemma ensure_mermaid_header_cases:
  "ensure_mermaid_header s =
     (if begins_with_keyword (strip s) then strip s else ''flowchart TD\<newline>'' @ strip s)"
  by (simp add: ensure_mermaid_header_def Let_def startswith_keyword)

lemmas string_eval =
  ensure_mermaid_header_def strip_def lstrip_def rstrip_def isspace_def lower_def
  lower_char_def startswith_def

text \<open>
  Claim C3. The normalizer is a total function on strings, without a failing branch.
  Every input has a trimmed form; if the trimmed form begins, in either case of each
  letter, with the keyword \<open>flowchart\<close>, the normalizer returns the trimmed form
  unchanged, and otherwise it returns \<open>flowchart TD\<close>, a newline and the trimmed form.
  The empty input gives the declaration line with an empty body, and \<open>A-->B\<close> gives
  \<open>flowchart TD\<close>, a newline and \<open>A-->B\<close>.
\<close>

theorem ensure_mermaid_header_total:
  "(\<exists>t. trimmed_of s t) \<and>
   (\<forall>t. trimmed_of s t \<longrightarrow>
      (begins_with_keyword t \<longrightarrow> ensure_mermaid_header s = t) \<and>
      (\<not> begins_with_keyword t \<longrightarrow> ensure_mermaid_header s = ''flowchart TD\<newline>'' @ t)) \<and>
   ensure_mermaid_header [] = ''flowchart TD\<newline>'' \<and>
   ensure_mermaid_header ''A-->B'' = ''flowchart TD\<newline>A-->B''"
proof (intro conjI allI impI)
  show "\<exists>t. trimmed_of s t" using strip_trimmed by blast
next
  fix t assume "trimmed_of s t" "begins_with_keyword t"
  then show "ensure_mermaid_header s = t"
    by (simp add: ensure_mermaid_header_cases trimmed_unique [symmetric])
next
  fix t assume "trimmed_of s t" "\<not> begins_with_keyword t"
  then show "ensure_mermaid_header s = ''flowchart TD\<newline>'' @ t"
    by (simp add: ensure_mermaid_header_cases trimmed_unique [symmetric])
next
  show "ensure_mermaid_header [] = ''flowchart TD\<newline>''" by (simp add: string_eval)
next
  show "ensure_mermaid_header ''A-->B'' = ''flowchart TD\<newline>A-->B''" by (simp add: string_eval)
qed

theorem ensure_mermaid_header_total_witness:
  "trimmed_of ''  FlowChart LR\<newline>A-->B \<newline>'' ''FlowChart LR\<newline>A-->B'' \<and>
   begins_with_keyword ''FlowChart LR\<newline>A-->B'' \<and>
   ensure_mermaid_header ''  FlowChart LR\<newline>A-->B \<newline>'' = ''FlowChart LR\<newline>A-->B'' \<and>
   trimmed_of '' x y '' ''x y'' \<and> \<not> begins_with_keyword ''x y'' \<and>
   ensure_mermaid_header '' x y '' = ''flowchart TD\<newline>x y''"
proof -
  let ?s = "''  FlowChart LR\<newline>A-->B \<newline>''" and ?t = "''FlowChart LR\<newline>A-->B''"
  let ?u = "'' x y ''" and ?v = "''x y''"
  have a: "trimmed_of ''  FlowChart LR\<newline>A-->B \<newline>'' ''FlowChart LR\<newline>A-->B''"
    unfolding trimmed_of_def
    by (rule exI [of _ "''  ''"], rule exI [of _ "'' \<newline>''"]) (simp add: isspace_def)
  have b: "begins_with_keyword ''FlowChart LR\<newline>A-->B''"
    by (simp add: begins_with_keyword_def same_letter_def)
  have c: "trimmed_of '' x y '' ''x y''"
    unfolding trimmed_of_def
    by (rule exI [of _ "'' ''"], rule exI [of _ "'' ''"]) (simp add: isspace_def)
  have d: "\<not> begins_with_keyword ''x y''"
    by (simp add: begins_with_keyword_def)
  have "\<forall>t. trimmed_of ?s t \<longrightarrow>
      (begins_with_keyword t \<longrightarrow> ensure_mermaid_header ?s = t) \<and>
      (\<not> begins_with_keyword t \<longrightarrow> ensure_mermaid_header ?s = ''flowchart TD\<newline>'' @ t)"
    by (rule conjunct1 [OF conjunct2 [OF ensure_mermaid_header_total]])
  then have "trimmed_of ?s ?t \<longrightarrow>
      (begins_with_keyword ?t \<longrightarrow> ensure_mermaid_header ?s = ?t) \<and>
      (\<not> begins_with_keyword ?t \<longrightarrow> ensure_mermaid_header ?s = ''flowchart TD\<newline>'' @ ?t)"
    by (rule spec)
  from this a have "(begins_with_keyword ?t \<longrightarrow> ensure_mermaid_header ?s = ?t) \<and>
      (\<not> begins_with_keyword ?t \<longrightarrow> ensure_mermaid_header ?s = ''flowchart TD\<newline>'' @ ?t)"
    by (rule mp)
  then have "begins_with_keyword ?t \<longrightarrow> ensure_mermaid_header ?s = ?t"
    by (rule conjunct1)
  from this b have e: "ensure_mermaid_header ?s = ?t"
    by (rule mp)
  have "\<forall>t. trimmed_of ?u t \<longrightarrow>
      (begins_with_keyword t \<longrightarrow> ensure_mermaid_header ?u = t) \<and>
      (\<not> begins_with_keyword t \<longrightarrow> ensure_mermaid_header ?u = ''flowchart TD\<newline>'' @ t)"
    by (rule conjunct1 [OF conjunct2 [OF ensure_mermaid_header_total]])
  then have "trimmed_of ?u ?v \<longrightarrow>
      (begins_with_keyword ?v \<longrightarrow> ensure_mermaid_header ?u = ?v) \<and>
      (\<not> begins_with_keyword ?v \<longrightarrow> ensure_mermaid_header ?u = ''flowchart TD\<newline>'' @ ?v)"
    by (rule spec)
  from this c have "(begins_with_keyword ?v \<longrightarrow> ensure_mermaid_header ?u = ?v) \<and>
      (\<not> begins_with_keyword ?v \<longrightarrow> ensure_mermaid_header ?u = ''flowchart TD\<newline>'' @ ?v)"
    by (rule mp)
  then have "\<not> begins_with_keyword ?v \<longrightarrow> ensure_mermaid_header ?u = ''flowchart TD\<newline>'' @ ?v"
    by (rule conjunct2)
  from this d have "ensure_mermaid_header ?u = ''flowchart TD\<newline>'' @ ?v"
    by (rule mp)
  then have f: "ensure_mermaid_header ?u = ''flowchart TD\<newline>x y''"
    by simp
  from a b e c d f show ?thesis by (intro conjI)
qed

section \<open>Every run has the shape\<close>

lemma critique_cases:
  obtains (raised) e s where
      "critique self p c rt w =
         (Inl (reraised (CritiqueCall p c rt (Inl e)) e),
          w\<lparr>llm := s, trace := trace w @ [CritiqueCall p c rt (Inl e)]\<rparr>)"
  | (returned) v s where
      "critique self p c rt w =
         (Inr v, w\<lparr>llm := s, trace := trace w @ [CritiqueCall p c rt (Inr v)]\<rparr>)"
proof (cases "critique_chain self p c rt (llm w)")
  case (Pair r s)
  show ?thesis
  proof (cases r)
    case (Inl e)
    with Pair have "critique self p c rt w =
         (Inl (reraised (CritiqueCall p c rt (Inl e)) e),
          w\<lparr>llm := s, trace := trace w @ [CritiqueCall p c rt (Inl e)]\<rparr>)"
      by (simp add: critique_def reraised_def)
    then show ?thesis by (rule raised)
  next
    case (Inr v)
    with Pair have "critique self p c rt w =
         (Inr v, w\<lparr>llm := s, trace := trace w @ [CritiqueCall p c rt (Inr v)]\<rparr>)"
      by (simp add: critique_def)
    then show ?thesis by (rule returned)
  qed
qed

lemma revise_cases:
  obtains (raised) e s where
      "revise self p c g w =
         (Inl (reraised (ReviseCall p c g (Inl e)) e),
          w\<lparr>llm := s, trace := trace w @ [ReviseCall p c g (Inl e)]\<rparr>)"
  | (returned) v s where
      "revise self p c g w =
         (Inr (stored v), w\<lparr>llm := s, trace := trace w @ [ReviseCall p c g (Inr v)]\<rparr>)"
proof (cases "revision_chain self p c g (llm w)")
  case (Pair r s)
  show ?thesis
  proof (cases r)
    case (Inl e)
    with Pair have "revise self p c g w =
         (Inl (reraised (ReviseCall p c g (Inl e)) e),
          w\<lparr>llm := s, trace := trace w @ [ReviseCall p c g (Inl e)]\<rparr>)"
      by (simp add: revise_def reraised_def)
    then show ?thesis by (rule raised)
  next
    case (Inr v)
    with Pair have "revise self p c g w =
         (Inr (stored v), w\<lparr>llm := s, trace := trace w @ [ReviseCall p c g (Inr v)]\<rparr>)"
      by (simp add: revise_def stored_def)
    then show ?thesis by (rule returned)
  qed
qed

lemma draft_cases:
  obtains (raised) e s where
      "draft self p w =
         (Inl (reraised (DraftCall p (Inl e)) e),
          w\<lparr>llm := s, trace := trace w @ [DraftCall p (Inl e)]\<rparr>)"
  | (returned) v s where
      "draft self p w =
         (Inr (stored v), w\<lparr>llm := s, trace := trace w @ [DraftCall p (Inr v)]\<rparr>)"
proof (cases "draft_chain self p (llm w)")
  case (Pair r s)
  show ?thesis
  proof (cases r)
    case (Inl e)
    with Pair have "draft self p w =
         (Inl (reraised (DraftCall p (Inl e)) e),
          w\<lparr>llm := s, trace := trace w @ [DraftCall p (Inl e)]\<rparr>)"
      by (simp add: draft_def reraised_def)
    then show ?thesis by (rule raised)
  next
    case (Inr v)
    with Pair have "draft self p w =
         (Inr (stored v), w\<lparr>llm := s, trace := trace w @ [DraftCall p (Inr v)]\<rparr>)"
      by (simp add: draft_def stored_def)
    then show ?thesis by (rule returned)
  qed
qed

lemma run_loop_shape:
  "\<exists>evs x. loop_shape p n d evs x \<and> handed_on p sh out w evs x (run_loop self p sh out n d w)"
proof (induction n arbitrary: d w)
  case 0
  have "loop_shape p 0 d [] (Inr d)" by (rule loop_shape.budget_spent)
  moreover have "handed_on p sh out w [] (Inr d) (run_loop self p sh out 0 d w)"
    by (auto simp: handed_on_def)
  ultimately show ?case by blast
next
  case (Suc n)
  show ?case
  proof (cases rule: critique_cases [of self p "mermaid_code d" "rationale d" w])
    case (raised e s)
    let ?ev = "CritiqueCall p (mermaid_code d) (rationale d) (Inl e)"
    have "loop_shape p (Suc n) d [?ev] (Inl (reraised ?ev e))"
      by (rule loop_shape.critique_raised) simp
    moreover have "handed_on p sh out w [?ev] (Inl (reraised ?ev e)) (run_loop self p sh out (Suc n) d w)"
      using raised by (simp add: handed_on_def)
    ultimately show ?thesis by blast
  next
    case (returned c s)
    let ?w1 = "w\<lparr>llm := s, trace := trace w @ [CritiqueCall p (mermaid_code d) (rationale d) (Inr c)]\<rparr>"
    show ?thesis
    proof (cases "is_satisfactory c")
      case True
      then have "loop_shape p (Suc n) d [CritiqueCall p (mermaid_code d) (rationale d) (Inr c)] (Inr d)"
        by (rule loop_shape.satisfied)
      moreover have "handed_on p sh out w [CritiqueCall p (mermaid_code d) (rationale d) (Inr c)] (Inr d)
          (run_loop self p sh out (Suc n) d w)"
        using returned True unfolding handed_on_def
        by (auto intro!: exI [of _ ?w1])
      ultimately show ?thesis by blast
    next
      case False
      show ?thesis
      proof (cases rule: revise_cases [of self p "mermaid_code d" "revision_guidance c" ?w1])
        case (raised e s')
        let ?ev = "ReviseCall p (mermaid_code d) (revision_guidance c) (Inl e)"
        have "loop_shape p (Suc n) d
            [CritiqueCall p (mermaid_code d) (rationale d) (Inr c), ?ev] (Inl (reraised ?ev e))"
          using False by (rule loop_shape.revision_raised) simp
        moreover have "handed_on p sh out w
            [CritiqueCall p (mermaid_code d) (rationale d) (Inr c), ?ev] (Inl (reraised ?ev e))
            (run_loop self p sh out (Suc n) d w)"
          using returned False raised by (simp add: handed_on_def)
        ultimately show ?thesis by blast
      next
        case (returned d' s')
        let ?w2 = "?w1\<lparr>llm := s', trace := trace ?w1 @ [ReviseCall p (mermaid_code d) (revision_guidance c) (Inr d')]\<rparr>"
        from Suc.IH [of "stored d'" ?w2] obtain evs x where
          sh: "loop_shape p n (stored d') evs x" and
          ho: "handed_on p sh out ?w2 evs x (run_loop self p sh out n (stored d') ?w2)"
          by blast
        have eq: "run_loop self p sh out (Suc n) d w = run_loop self p sh out n (stored d') ?w2"
          using \<open>critique self p (mermaid_code d) (rationale d) w = (Inr c, ?w1)\<close> False returned
          by simp
        have "loop_shape p (Suc n) d
            (CritiqueCall p (mermaid_code d) (rationale d) (Inr c) #
             ReviseCall p (mermaid_code d) (revision_guidance c) (Inr d') # evs) x"
          using False sh by (rule loop_shape.revised)
        moreover have "handed_on p sh out w
            (CritiqueCall p (mermaid_code d) (rationale d) (Inr c) #
             ReviseCall p (mermaid_code d) (revision_guidance c) (Inr d') # evs) x
            (run_loop self p sh out (Suc n) d w)"
          using ho unfolding eq handed_on_def by (auto split: sum.splits)
        ultimately show ?thesis by blast
      qed
    qed
  qed
qed

section \<open>What the shape implies\<close>

lemmas call_counts = draft_calls_def critique_calls_def revise_calls_def presenter_calls_def

lemma loop_shape_counts:
  "loop_shape p n d evs x \<Longrightarrow>
     critique_calls evs \<le> n \<and> revise_calls evs \<le> critique_calls evs \<and>
     draft_calls evs = 0 \<and> presenter_calls evs = 0"
  by (induction rule: loop_shape.induct) (simp_all add: call_counts)

lemma loop_shape_returned:
  "loop_shape p n d evs x \<Longrightarrow> x = Inr df \<Longrightarrow>
     (\<forall>b\<in>set evs. raised b = None) \<and> df = last (d # drafts_produced evs)"
  by (induction arbitrary: df rule: loop_shape.induct) (auto simp: drafts_produced_def)

lemma loop_shape_raised:
  "loop_shape p n d evs x \<Longrightarrow> x = Inl e' \<Longrightarrow>
     \<exists>pre evt e. evs = pre @ [evt] \<and> raised evt = Some e \<and> e' = reraised evt e \<and>
       \<not> is_presenter_call evt \<and> (\<forall>b\<in>set pre. raised b = None)"
proof (induction arbitrary: e' rule: loop_shape.induct)
  case (budget_spent d)
  then show ?case by simp
next
  case (critique_raised ev d e n)
  then have "[ev] = [] @ [ev] \<and> raised ev = Some e \<and> e' = reraised ev e \<and>
      \<not> is_presenter_call ev \<and> (\<forall>b\<in>set []. raised b = None)"
    by simp
  then show ?case by blast
next
  case (satisfied c n d)
  then show ?case by simp
next
  case (revision_raised c ev d e n)
  let ?c = "CritiqueCall p (mermaid_code d) (rationale d) (Inr c)"
  from revision_raised have "[?c, ev] = [?c] @ [ev] \<and> raised ev = Some e \<and> e' = reraised ev e \<and>
      \<not> is_presenter_call ev \<and> (\<forall>b\<in>set [?c]. raised b = None)"
    by simp
  then show ?case by blast
next
  case (revised c n d' evs x d)
  then obtain pre evt e where h: "evs = pre @ [evt]" "raised evt = Some e" "e' = reraised evt e"
      "\<not> is_presenter_call evt" "\<forall>b\<in>set pre. raised b = None"
    by blast
  let ?pre = "CritiqueCall p (mermaid_code d) (rationale d) (Inr c) #
        ReviseCall p (mermaid_code d) (revision_guidance c) (Inr d') # pre"
  from h have "CritiqueCall p (mermaid_code d) (rationale d) (Inr c) #
        ReviseCall p (mermaid_code d) (revision_guidance c) (Inr d') # evs = ?pre @ [evt] \<and>
      raised evt = Some e \<and> e' = reraised evt e \<and> \<not> is_presenter_call evt \<and>
      (\<forall>b\<in>set ?pre. raised b = None)"
    by simp
  then show ?case by blast
qed

lemma loop_shape_all_unsatisfactory:
  "loop_shape p n d evs x \<Longrightarrow> \<forall>b\<in>set evs. unsatisfactory b \<and> raised b = None \<Longrightarrow>
     critique_calls evs = n \<and> revise_calls evs = n \<and> (\<exists>df. x = Inr df)"
  by (induction rule: loop_shape.induct) (simp_all add: call_counts)

lemma loop_shape_first_satisfactory:
  "loop_shape p n d (CritiqueCall a b c (Inr cr) # rest) x \<Longrightarrow> is_satisfactory cr \<Longrightarrow>
     rest = [] \<and> x = Inr d"
  by (erule loop_shape.cases) simp_all

lemma loop_shape_starts_with_critique:
  "loop_shape p (Suc n) d evs x \<Longrightarrow>
     \<exists>o' rest. evs = CritiqueCall p (mermaid_code d) (rationale d) o' # rest"
  by (erule loop_shape.cases) simp_all

lemma finalize_cases:
  "finalize p c sh out w =
     (if \<not> sh then (Inr \<lparr>prompt = p, final_mermaid_code = strip c, html_path = None\<rparr>, w)
      else case write_error w (Path out) of
             Some e \<Rightarrow> (Inl e, w\<lparr>trace := trace w @ [PresenterCall c out]\<rparr>)
           | None \<Rightarrow>
               (Inr \<lparr>prompt = p, final_mermaid_code = strip c, html_path = Some (Path out)\<rparr>,
                w\<lparr>trace := trace w @ [PresenterCall c out],
                  files := (files w)(Path out \<mapsto> render_template c)\<rparr>))"
  by (simp add: finalize_def write_mermaid_html_def Let_def split: option.splits)

lemma run_shape:
  "\<exists>evs x. run_shape p (nat (max_iterations self)) evs x \<and>
     handed_on p sh out w evs x (run self p sh out w)"
proof (cases rule: draft_cases [of self p w])
  case (raised e s)
  have "run_shape p (nat (max_iterations self)) [DraftCall p (Inl e)]
      (Inl (reraised (DraftCall p (Inl e)) e))"
    by (simp add: run_shape_def)
  moreover have "handed_on p sh out w [DraftCall p (Inl e)]
      (Inl (reraised (DraftCall p (Inl e)) e)) (run self p sh out w)"
    using raised by (simp add: run_def handed_on_def)
  ultimately show ?thesis by blast
next
  case (returned v s)
  let ?w1 = "w\<lparr>llm := s, trace := trace w @ [DraftCall p (Inr v)]\<rparr>"
  obtain evs x where sh: "loop_shape p (nat (max_iterations self)) (stored v) evs x"
    and ho: "handed_on p sh out ?w1 evs x
               (run_loop self p sh out (nat (max_iterations self)) (stored v) ?w1)"
    using run_loop_shape by blast
  have "run_shape p (nat (max_iterations self)) (DraftCall p (Inr v) # evs) x"
    using sh by (simp add: run_shape_def)
  moreover have "handed_on p sh out w (DraftCall p (Inr v) # evs) x (run self p sh out w)"
    using ho returned unfolding handed_on_def run_def by (auto split: sum.splits)
  ultimately show ?thesis by blast
qed

lemma run_events_append: "trace w' = trace w @ evs \<Longrightarrow> run_events w w' = evs"
  by (simp add: run_events_def)

text \<open>Everything that a run can be: the calls to the chains, then the presenter.\<close>

lemma run_summary:
  assumes "run self p sh out w = (r, w')"
  obtains (failed) evs e where
      "run_shape p (nat (max_iterations self)) evs (Inl e)" "r = Inl e"
      "run_events w w' = evs" "files w' = files w"
  | (plain) evs d where
      "run_shape p (nat (max_iterations self)) evs (Inr d)" "\<not> sh"
      "r = Inr \<lparr>prompt = p, final_mermaid_code = strip (mermaid_code d), html_path = None\<rparr>"
      "run_events w w' = evs" "files w' = files w"
  | (unwritten) evs d e where
      "run_shape p (nat (max_iterations self)) evs (Inr d)" "sh"
      "write_error w (Path out) = Some e" "r = Inl e"
      "run_events w w' = evs @ [PresenterCall (mermaid_code d) out]" "files w' = files w"
  | (written) evs d where
      "run_shape p (nat (max_iterations self)) evs (Inr d)" "sh"
      "write_error w (Path out) = None"
      "r = Inr \<lparr>prompt = p, final_mermaid_code = strip (mermaid_code d),
                html_path = Some (Path out)\<rparr>"
      "run_events w w' = evs @ [PresenterCall (mermaid_code d) out]"
      "files w' = (files w)(Path out \<mapsto> render_template (mermaid_code d))"
proof -
  obtain evs x where rs: "run_shape p (nat (max_iterations self)) evs x"
    and ho: "handed_on p sh out w evs x (run self p sh out w)"
    using run_shape by blast
  show ?thesis
  proof (cases x)
    case (Inl e)
    with ho assms have "r = Inl e" "trace w' = trace w @ evs" "files w' = files w"
      by (simp_all add: handed_on_def)
    with rs Inl show ?thesis by (intro failed [of evs e]) (simp_all add: run_events_append)
  next
    case (Inr d)
    with ho assms obtain w1 where w1: "trace w1 = trace w @ evs" "files w1 = files w"
        "write_error w1 = write_error w" "(r, w') = finalize p (mermaid_code d) sh out w1"
      by (auto simp: handed_on_def)
    show ?thesis
    proof (cases sh)
      case False
      with w1 have "r = Inr \<lparr>prompt = p, final_mermaid_code = strip (mermaid_code d), html_path = None\<rparr>"
          "w' = w1"
        by (simp_all add: finalize_cases)
      with rs Inr False w1 show ?thesis
        by (intro plain [of evs d]) (simp_all add: run_events_append)
    next
      case True
      show ?thesis
      proof (cases "write_error w (Path out)")
        case (Some e)
        with True w1 have "r = Inl e" "w' = w1\<lparr>trace := trace w1 @ [PresenterCall (mermaid_code d) out]\<rparr>"
          by (simp_all add: finalize_cases)
        with rs Inr True Some w1 show ?thesis
          by (intro unwritten [of evs d e]) (simp_all add: run_events_append)
      next
        case None
        with True w1 have "r = Inr \<lparr>prompt = p, final_mermaid_code = strip (mermaid_code d),
                html_path = Some (Path out)\<rparr>"
          "w' = w1\<lparr>trace := trace w1 @ [PresenterCall (mermaid_code d) out],
                  files := (files w1)(Path out \<mapsto> render_template (mermaid_code d))\<rparr>"
          by (simp_all add: finalize_cases)
        with rs Inr True None w1 show ?thesis
          by (intro written [of evs d]) (simp_all add: run_events_append)
      qed
    qed
  qed
qed

lemma run_shape_counts:
  "run_shape p n evs x \<Longrightarrow>
     critique_calls evs \<le> n \<and> revise_calls evs \<le> critique_calls evs \<and>
     draft_calls evs = 1 \<and> presenter_calls evs = 0"
  unfolding run_shape_def
  by (auto simp: call_counts dest!: loop_shape_counts)

lemma run_shape_returned:
  assumes "run_shape p n evs (Inr d)"
  shows "(\<forall>b\<in>set evs. raised b = None) \<and> drafts_produced evs \<noteq> [] \<and>
         d = last (drafts_produced evs)"
proof -
  from assms obtain v evs' where e: "evs = DraftCall p (Inr v) # evs'"
    and l: "loop_shape p n (stored v) evs' (Inr d)"
    by (auto simp: run_shape_def)
  from loop_shape_returned [OF l refl]
  have "\<forall>b\<in>set evs'. raised b = None" "d = last (stored v # drafts_produced evs')"
    by simp_all
  moreover have "drafts_produced evs = stored v # drafts_produced evs'"
    using e by (simp add: drafts_produced_def)
  ultimately show ?thesis using e by simp
qed

lemma run_shape_raised:
  assumes "run_shape p n evs (Inl e')"
  shows "\<exists>pre evt e. evs = pre @ [evt] \<and> raised evt = Some e \<and> e' = reraised evt e \<and>
       \<not> is_presenter_call evt \<and> (\<forall>b\<in>set pre. raised b = None)"
proof -
  from assms consider
    (a) e where "evs = [DraftCall p (Inl e)]" "e' = reraised (DraftCall p (Inl e)) e"
  | (b) v evs' where "evs = DraftCall p (Inr v) # evs'" "loop_shape p n (stored v) evs' (Inl e')"
    by (auto simp: run_shape_def)
  then show ?thesis
  proof cases
    case a
    then have "evs = [] @ [DraftCall p (Inl e)] \<and> raised (DraftCall p (Inl e)) = Some e \<and>
        e' = reraised (DraftCall p (Inl e)) e \<and> \<not> is_presenter_call (DraftCall p (Inl e)) \<and>
        (\<forall>b\<in>set []. raised b = None)"
      by simp
    then show ?thesis by blast
  next
    case b
    from loop_shape_raised [OF b(2) refl] obtain pre evt e where
      h: "evs' = pre @ [evt]" "raised evt = Some e" "e' = reraised evt e"
         "\<not> is_presenter_call evt" "\<forall>b\<in>set pre. raised b = None"
      by blast
    with b(1) have "evs = (DraftCall p (Inr v) # pre) @ [evt] \<and> raised evt = Some e \<and>
        e' = reraised evt e \<and> \<not> is_presenter_call evt \<and>
        (\<forall>b\<in>set (DraftCall p (Inr v) # pre). raised b = None)"
      by simp
    then show ?thesis by blast
  qed
qed

lemma run_shape_all_unsatisfactory:
  assumes "run_shape p n evs x" "\<forall>b\<in>set evs. unsatisfactory b \<and> raised b = None"
  shows "critique_calls evs = n \<and> revise_calls evs = n \<and> (\<exists>d. x = Inr d)"
proof -
  from assms obtain v evs' where e: "evs = DraftCall p (Inr v) # evs'"
    and l: "loop_shape p n (stored v) evs' x"
    by (auto simp: run_shape_def)
  from assms(2) e have "\<forall>b\<in>set evs'. unsatisfactory b \<and> raised b = None" by simp
  from loop_shape_all_unsatisfactory [OF l this] e show ?thesis
    by (simp add: call_counts)
qed

lemma counts_snoc_presenter:
  "critique_calls (evs @ [PresenterCall c out]) = critique_calls evs"
  "revise_calls (evs @ [PresenterCall c out]) = revise_calls evs"
  "draft_calls (evs @ [PresenterCall c out]) = draft_calls evs"
  "presenter_calls (evs @ [PresenterCall c out]) = Suc (presenter_calls evs)"
  "drafts_produced (evs @ [PresenterCall c out]) = drafts_produced evs"
  by (simp_all add: call_counts drafts_produced_def)

lemma produced_stored: "d \<in> set (drafts_produced evs) \<Longrightarrow> \<exists>raw. d = stored raw"
proof -
  assume "d \<in> set (drafts_produced evs)"
  then obtain ev where "ev \<in> set evs" "d \<in> set (produced ev)"
    by (auto simp: drafts_produced_def)
  then show ?thesis by (cases ev rule: produced.cases) auto
qed

text \<open>The keyword survives trimming.\<close>

lemma same_letter_no_space:
  assumes "same_letter c k" "k \<in> set ''flowchart''"
  shows "\<not> isspace c"
proof -
  have k: "97 \<le> (of_char k :: nat)" "(of_char k :: nat) \<le> 122"
    using keyword_codes [OF assms(2)] by simp_all
  from assms(1) have "(of_char c :: nat) = of_char k \<or> (of_char c :: nat) + 32 = of_char k"
    by (auto simp: same_letter_def)
  with k have "65 \<le> (of_char c :: nat) \<and> (of_char c :: nat) \<le> 122" by auto
  then show ?thesis by (auto simp: isspace_def Let_def)
qed

lemma keyword_ends:
  assumes "begins_with_keyword t"
  shows "length (take 9 t) = 9 \<and> \<not> isspace (hd (take 9 t)) \<and> \<not> isspace (last (take 9 t))"
proof -
  let ?k = "take 9 t"
  from assms have a: "list_all2 same_letter ?k ''flowchart''"
    by (simp add: begins_with_keyword_def)
  then have "length ?k = length ''flowchart''" by (rule list_all2_lengthD)
  then have len: "length ?k = 9" by (simp del: length_take)
  have p0: "0 < length ?k" and p8: "8 < length ?k" using len by linarith+
  from a p0 have "same_letter (?k ! 0) (''flowchart'' ! 0)" by (rule list_all2_nthD)
  then have "same_letter (?k ! 0) CHR ''f''" by simp
  then have h: "\<not> isspace (?k ! 0)" by (rule same_letter_no_space) simp
  from a p8 have "same_letter (?k ! 8) (''flowchart'' ! 8)" by (rule list_all2_nthD)
  then have "same_letter (?k ! 8) CHR ''t''" by simp
  then have l: "\<not> isspace (?k ! 8)" by (rule same_letter_no_space) simp
  have ne: "?k \<noteq> []" using len by auto
  have hd: "hd ?k = ?k ! 0" using ne by (rule hd_conv_nth)
  have "last ?k = ?k ! (length ?k - 1)" using ne by (rule last_conv_nth)
  moreover have "length ?k - 1 = 8" using len by linarith
  ultimately have la: "last ?k = ?k ! 8" by (simp only:)
  have "\<not> isspace (hd ?k)" unfolding hd by (rule h)
  moreover have "\<not> isspace (last ?k)" unfolding la by (rule l)
  ultimately show ?thesis using len by (intro conjI)
qed

lemma keyword_strip:
  assumes "begins_with_keyword t"
  shows "begins_with_keyword (strip t) \<and> strip t \<noteq> []"
proof -
  let ?k = "take 9 t" and ?r = "drop 9 t"
  from keyword_ends [OF assms] have len: "length ?k = 9" and h: "\<not> isspace (hd ?k)"
    and l: "\<not> isspace (last ?k)" by simp_all
  have ne: "?k \<noteq> []" using len by auto
  have t: "t = ?k @ ?r" by simp
  have "t \<noteq> []" using ne by auto
  moreover have "hd t = hd ?k" using ne by (metis hd_append2 t)
  ultimately have "lstrip t = t" using h by (simp add: lstrip_unchanged)
  then have "strip t = rstrip (?k @ ?r)" by (simp add: strip_def)
  also have "\<dots> = ?k @ rstrip ?r" using ne l by (rule rstrip_append_kept)
  finally have s: "strip t = ?k @ rstrip ?r" .
  then have "take 9 (strip t) = ?k" using len by simp
  with assms have "begins_with_keyword (strip t)" by (simp add: begins_with_keyword_def)
  moreover from s ne have "strip t \<noteq> []" by simp
  ultimately show ?thesis by simp
qed

lemma keyword_ensured: "begins_with_keyword (ensure_mermaid_header s)"
  by (simp add: ensure_mermaid_header_cases begins_with_keyword_def same_letter_def)

section \<open>The claims about \<open>run\<close>\<close>



lemma critique_in_snoc_presenter:
  "CritiqueCall a b c o' \<in> set (evs @ [PresenterCall k out]) \<longleftrightarrow> CritiqueCall a b c o' \<in> set evs"
  by simp



text \<open>
  Claim C2. In a run with \<open>max_iterations = N\<close> in which no chain raises, every critique
  returned is unsatisfactory and the presenter does not fail, the critique chain is called
  exactly \<open>N\<close> times (\<open>nat N\<close>, which is \<open>N\<close> for the positive budgets of the
  configuration), and \<open>run\<close> returns a result whose content is the trimmed content of
  the last draft produced. \<open>run\<close> is a total function: the loop is a recursion on the
  number of passes left.
\<close>

theorem run_all_unsatisfactory:
  assumes "run self p sh out w = (r, w')"
    and "\<forall>b\<in>set (run_events w w'). unsatisfactory b \<and> raised b = None"
    and "\<not> sh \<or> write_error w (Path out) = None"
  shows "critique_calls (run_events w w') = nat (max_iterations self) \<and>
         drafts_produced (run_events w w') \<noteq> [] \<and>
         (\<exists>hp. r = Inr \<lparr>prompt = p,
                  final_mermaid_code = strip (mermaid_code (last (drafts_produced (run_events w w')))),
                  html_path = hp\<rparr>)"
  using assms(1)
proof (cases rule: run_summary)
  case (failed evs e)
  from run_shape_raised [OF failed(1)] obtain pre evt e0 where
    "evs = pre @ [evt]" "raised evt = Some e0" by blast
  with assms(2) failed(3) show ?thesis by auto
next
  case (plain evs d)
  from run_shape_all_unsatisfactory [OF plain(1)] assms(2) plain(4)
  have "critique_calls evs = nat (max_iterations self)" by simp
  with run_shape_returned [OF plain(1)] plain(3,4) show ?thesis by simp
next
  case (unwritten evs d e)
  with assms(3) show ?thesis by simp
next
  case (written evs d)
  from assms(2) written(5) have "\<forall>b\<in>set evs. unsatisfactory b \<and> raised b = None" by simp
  from run_shape_all_unsatisfactory [OF written(1) this]
  have "critique_calls evs = nat (max_iterations self)" by simp
  with run_shape_returned [OF written(1)] written(4,5) show ?thesis
    by (simp add: counts_snoc_presenter)
qed

text \<open>
  Claim C5. The content of every result that \<open>run\<close> returns is not empty, begins with
  the keyword \<open>flowchart\<close> in either case of each letter, and is the trimmed form of the
  normalized content of a draft that a chain returned during that run.
\<close>

theorem run_result_content:
  assumes "run self p sh out w = (Inr res, w')"
  shows "final_mermaid_code res \<noteq> [] \<and> begins_with_keyword (final_mermaid_code res) \<and>
         (\<exists>raw. stored raw \<in> set (drafts_produced (run_events w w')) \<and>
            final_mermaid_code res = strip (ensure_mermaid_header (mermaid_code raw)) \<and>
            trimmed_of (ensure_mermaid_header (mermaid_code raw)) (final_mermaid_code res))"
proof -
  have "\<exists>evs d. run_shape p (nat (max_iterations self)) evs (Inr d) \<and>
          final_mermaid_code res = strip (mermaid_code d) \<and>
          drafts_produced (run_events w w') = drafts_produced evs"
    using assms
  proof (cases rule: run_summary)
    case (plain evs d)
    then show ?thesis by auto
  next
    case (written evs d)
    then have "run_shape p (nat (max_iterations self)) evs (Inr d) \<and>
          final_mermaid_code res = strip (mermaid_code d) \<and>
          drafts_produced (run_events w w') = drafts_produced evs"
      by (simp add: counts_snoc_presenter)
    then show ?thesis by blast
  qed simp_all
  then obtain evs d where rs: "run_shape p (nat (max_iterations self)) evs (Inr d)"
    and f: "final_mermaid_code res = strip (mermaid_code d)"
    and dp: "drafts_produced (run_events w w') = drafts_produced evs" by blast
  from run_shape_returned [OF rs] have "d \<in> set (drafts_produced evs)" by simp
  moreover from this obtain raw where raw: "d = stored raw" using produced_stored by blast
  ultimately have m: "stored raw \<in> set (drafts_produced (run_events w w'))" using dp by simp
  have c: "final_mermaid_code res = strip (ensure_mermaid_header (mermaid_code raw))"
    using f raw by (simp add: stored_def)
  from keyword_strip [OF keyword_ensured [of "mermaid_code raw"]] c
  have "final_mermaid_code res \<noteq> []" "begins_with_keyword (final_mermaid_code res)" by simp_all
  moreover have "trimmed_of (ensure_mermaid_header (mermaid_code raw)) (final_mermaid_code res)"
    unfolding c by (rule strip_trimmed)
  ultimately show ?thesis using m c by blast
qed

lemma run_failure:
  assumes "run self p sh out w = (r, w')" "ev \<in> set (run_events w w')" "raised ev = Some e"
  shows "r = Inl (reraised ev e) \<and> run_events w w' = butlast (run_events w w') @ [ev] \<and>
         (\<forall>b\<in>set (butlast (run_events w w')). raised b = None) \<and>
         presenter_calls (run_events w w') = 0 \<and> files w' = files w"
  using assms(1)
proof (cases rule: run_summary)
  case (failed evs e')
  from run_shape_raised [OF failed(1)] obtain pre evt e0 where
    h: "evs = pre @ [evt]" "raised evt = Some e0" "e' = reraised evt e0"
       "\<forall>b\<in>set pre. raised b = None" by blast
  from assms(2,3) failed(3) h have "ev = evt" by auto
  with h assms(3) have "e0 = e" by simp
  from run_shape_counts [OF failed(1)] have "presenter_calls evs = 0" by simp
  with h \<open>ev = evt\<close> \<open>e0 = e\<close> failed show ?thesis by simp
next
  case (plain evs d)
  from run_shape_returned [OF plain(1)] assms(2,3) plain(4) show ?thesis by auto
next
  case (unwritten evs d e')
  from run_shape_returned [OF unwritten(1)] assms(2,3) unwritten(5) show ?thesis by auto
next
  case (written evs d)
  from run_shape_returned [OF written(1)] assms(2,3) written(5) show ?thesis by auto
qed


text \<open>
  Claim C10. If a chain call of a run raises an exception that is not a
  \<open>ValidationError\<close>, \<open>run\<close> fails with that same exception, unchanged and without a
  phase label; the failing call is the last call of the run.
\<close>

theorem run_other_exception:
  assumes "run self p sh out w = (r, w')" "ev \<in> set (run_events w w')" "raised ev = Some e"
    and "exc_type e \<noteq> ValidationError"
  shows "r = Inl e \<and> run_events w w' = butlast (run_events w w') @ [ev] \<and>
         presenter_calls (run_events w w') = 0 \<and> files w' = files w"
  using run_failure [OF assms(1,2,3)] assms(4) by (simp add: reraised_def)

lemma loop_shape_no_critique:
  "loop_shape p n d evs x \<Longrightarrow> filter is_critique_call evs = [] \<Longrightarrow> evs = [] \<and> x = Inr d"
  by (erule loop_shape.cases) simp_all

lemma loop_shape_first_critique:
  assumes "loop_shape p n d evs x" "filter is_critique_call evs = CritiqueCall a b c (Inr cr) # rest"
    "is_satisfactory cr"
  shows "evs = [CritiqueCall a b c (Inr cr)] \<and> rest = [] \<and> x = Inr d"
  using assms by (cases rule: loop_shape.cases) auto

text \<open>
  Claim C4. If the first critique that a run receives is satisfactory, the run consists
  of one draft call, that one critique call and, when rendering is asked for, the
  presenter call; the revision chain is not called; a result that is returned holds the
  trimmed, normalized content of the first draft, and a result is returned unless the
  presenter fails.
\<close>

theorem run_first_critique_satisfactory:
  assumes "run self p sh out w = (r, w')"
    and "filter is_critique_call (run_events w w') = CritiqueCall a b c (Inr cr) # rest"
    and "is_satisfactory cr"
  shows "rest = [] \<and> draft_calls (run_events w w') = 1 \<and> critique_calls (run_events w w') = 1 \<and>
         revise_calls (run_events w w') = 0 \<and>
         (\<exists>raw. run_events w w' =
              DraftCall p (Inr raw) # CritiqueCall a b c (Inr cr) #
              (if sh then [PresenterCall (ensure_mermaid_header (mermaid_code raw)) out] else []) \<and>
            (\<forall>res. r = Inr res \<longrightarrow>
               final_mermaid_code res = strip (ensure_mermaid_header (mermaid_code raw))) \<and>
            (\<not> sh \<or> write_error w (Path out) = None \<longrightarrow> (\<exists>res. r = Inr res)))"
proof -
  have key: "\<exists>raw. evs = [DraftCall p (Inr raw), CritiqueCall a b c (Inr cr)] \<and> rest = [] \<and>
      x = Inr (stored raw)"
    if rs: "run_shape p (nat (max_iterations self)) evs x"
      and f: "filter is_critique_call evs = CritiqueCall a b c (Inr cr) # rest" for evs x
  proof -
    from rs f obtain v evs' where e: "evs = DraftCall p (Inr v) # evs'"
      and l: "loop_shape p (nat (max_iterations self)) (stored v) evs' x"
      by (auto simp: run_shape_def)
    from f e have "filter is_critique_call evs' = CritiqueCall a b c (Inr cr) # rest" by simp
    from loop_shape_first_critique [OF l this assms(3)] e show ?thesis by simp
  qed
  from assms(1) show ?thesis
  proof (cases rule: run_summary)
    case (failed evs e)
    from key [OF failed(1)] assms(2) failed(3) show ?thesis by auto
  next
    case (plain evs d)
    from key [OF plain(1)] assms(2) plain(4) obtain raw where
      "evs = [DraftCall p (Inr raw), CritiqueCall a b c (Inr cr)]" "rest = []" "d = stored raw"
      by auto
    with plain show ?thesis by (simp add: call_counts stored_def)
  next
    case (unwritten evs d e)
    from assms(2) unwritten(5)
    have "filter is_critique_call evs = CritiqueCall a b c (Inr cr) # rest" by simp
    from key [OF unwritten(1) this] obtain raw where
      "evs = [DraftCall p (Inr raw), CritiqueCall a b c (Inr cr)]" "rest = []" "d = stored raw"
      by auto
    with unwritten show ?thesis by (simp add: call_counts stored_def)
  next
    case (written evs d)
    from assms(2) written(5)
    have "filter is_critique_call evs = CritiqueCall a b c (Inr cr) # rest" by simp
    from key [OF written(1) this] obtain raw where
      "evs = [DraftCall p (Inr raw), CritiqueCall a b c (Inr cr)]" "rest = []" "d = stored raw"
      by auto
    with written show ?thesis by (simp add: call_counts stored_def)
  qed
qed



section \<open>The example runs, evaluated\<close>

lemma run_loop_numeral:
  "run_loop self p sh out (numeral k) d w =
     (case critique self p (mermaid_code d) (rationale d) w of
        (Inl e, w1) \<Rightarrow> (Inl e, w1)
      | (Inr c, w1) \<Rightarrow>
          if is_satisfactory c
          then finalize p (mermaid_code d) sh out w1
          else (case revise self p (mermaid_code d) (revision_guidance c) w1 of
                  (Inl e, w2) \<Rightarrow> (Inl e, w2)
                | (Inr d', w2) \<Rightarrow> run_loop self p sh out (pred_numeral k) d' w2))"
  by (simp add: numeral_eq_Suc)

lemmas agent_eval =
  run_def draft_def critique_def revise_def finalize_def write_mermaid_html_def
  scripted_agent_def fresh_world_def next_draft_def next_critique_def run_events_def
  run_loop_numeral Let_def string_eval


lemma run_two_rounds_value:
  "fst run_two_rounds =
     Inr \<lparr>prompt = ''req'', final_mermaid_code = ''FLOWCHART LR\<newline>A-->D'', html_path = None\<rparr>"
  "run_events (fresh_world script_two_rounds) (snd run_two_rounds) =
     [DraftCall ''req'' (Inr \<lparr>mermaid_code = ''A-->B'', rationale = []\<rparr>),
      CritiqueCall ''req'' ''flowchart TD\<newline>A-->B'' []
        (Inr \<lparr>is_satisfactory = False, revision_guidance = ''add C''\<rparr>),
      ReviseCall ''req'' ''flowchart TD\<newline>A-->B'' ''add C''
        (Inr \<lparr>mermaid_code = ''flowchart LR\<newline>A-->C'', rationale = []\<rparr>),
      CritiqueCall ''req'' ''flowchart LR\<newline>A-->C'' []
        (Inr \<lparr>is_satisfactory = False, revision_guidance = ''add D''\<rparr>),
      ReviseCall ''req'' ''flowchart LR\<newline>A-->C'' ''add D''
        (Inr \<lparr>mermaid_code = '' FLOWCHART LR\<newline>A-->D '', rationale = []\<rparr>)]"
  by code_simp+

lemma run_satisfied_value:
  "fst run_satisfied =
     Inr \<lparr>prompt = ''req'', final_mermaid_code = ''flowchart TD\<newline>A-->B'',
          html_path = Some (Path ''out.html'')\<rparr>"
  "run_events (fresh_world script_satisfied) (snd run_satisfied) =
     [DraftCall ''req'' (Inr \<lparr>mermaid_code = ''A-->B'', rationale = []\<rparr>),
      CritiqueCall ''req'' ''flowchart TD\<newline>A-->B'' []
        (Inr \<lparr>is_satisfactory = True, revision_guidance = ''fine''\<rparr>),
      PresenterCall ''flowchart TD\<newline>A-->B'' ''out.html'']"
  "files (snd run_satisfied) =
     [Path ''out.html'' \<mapsto> render_template ''flowchart TD\<newline>A-->B'']"
  by (simp_all add: run_satisfied_def script_satisfied_def agent_eval)


lemma run_no_network_value:
  "fst run_no_network = Inl network_error"
  "run_events (fresh_world script_no_network) (snd run_no_network) =
     [DraftCall ''req'' (Inr \<lparr>mermaid_code = ''A-->B'', rationale = []\<rparr>),
      CritiqueCall ''req'' ''flowchart TD\<newline>A-->B'' []
        (Inr \<lparr>is_satisfactory = False, revision_guidance = ''add C''\<rparr>),
      ReviseCall ''req'' ''flowchart TD\<newline>A-->B'' ''add C'' (Inl network_error)]"
  "files (snd run_no_network) = Map.empty"
  by (simp_all add: run_no_network_def script_no_network_def network_error_def agent_eval)



theorem run_all_unsatisfactory_witness:
  "critique_calls (run_events (fresh_world script_two_rounds) (snd run_two_rounds)) = 2 \<and>
   fst run_two_rounds =
     Inr \<lparr>prompt = ''req'', final_mermaid_code = ''FLOWCHART LR\<newline>A-->D'', html_path = None\<rparr>"
proof -
  have eq: "run (scripted_agent 2) ''req'' False ''out.html'' (fresh_world script_two_rounds) =
      (fst run_two_rounds, snd run_two_rounds)"
    by (simp add: run_two_rounds_def)
  have a: "\<forall>b\<in>set (run_events (fresh_world script_two_rounds) (snd run_two_rounds)).
      unsatisfactory b \<and> raised b = None"
    by (simp add: run_two_rounds_value)
  have b: "\<not> False \<or> write_error (fresh_world script_two_rounds) (Path ''out.html'') = None"
    by simp
  from run_all_unsatisfactory [OF eq a b] run_two_rounds_value(1)
  show ?thesis by (simp add: scripted_agent_def)
qed

theorem run_first_critique_satisfactory_witness:
  "draft_calls (run_events (fresh_world script_satisfied) (snd run_satisfied)) = 1 \<and>
   critique_calls (run_events (fresh_world script_satisfied) (snd run_satisfied)) = 1 \<and>
   revise_calls (run_events (fresh_world script_satisfied) (snd run_satisfied)) = 0 \<and>
   final_mermaid_code
     \<lparr>prompt = ''req'', final_mermaid_code = ''flowchart TD\<newline>A-->B'',
      html_path = Some (Path ''out.html'')\<rparr> =
   strip (ensure_mermaid_header ''A-->B'')"
proof -
  let ?c = "\<lparr>is_satisfactory = True, revision_guidance = ''fine''\<rparr>"
  let ?evs = "run_events (fresh_world script_satisfied) (snd run_satisfied)"
  have eq: "run (scripted_agent 3) ''req'' True ''out.html'' (fresh_world script_satisfied) =
      (fst run_satisfied, snd run_satisfied)"
    by (simp add: run_satisfied_def)
  have f: "filter is_critique_call ?evs =
      CritiqueCall ''req'' ''flowchart TD\<newline>A-->B'' [] (Inr ?c) # []"
    by (simp add: run_satisfied_value)
  have s: "is_satisfactory ?c" by simp
  from run_first_critique_satisfactory [OF eq f s] obtain raw where
    c: "draft_calls ?evs = 1" "critique_calls ?evs = 1" "revise_calls ?evs = 0"
    and e: "?evs = DraftCall ''req'' (Inr raw) #
        CritiqueCall ''req'' ''flowchart TD\<newline>A-->B'' [] (Inr ?c) #
        (if True then [PresenterCall (ensure_mermaid_header (mermaid_code raw)) ''out.html''] else [])"
    and r: "\<forall>res. fst run_satisfied = Inr res \<longrightarrow>
        final_mermaid_code res = strip (ensure_mermaid_header (mermaid_code raw))"
    by blast
  from e have "raw = \<lparr>mermaid_code = ''A-->B'', rationale = []\<rparr>"
    by (simp add: run_satisfied_value)
  with r run_satisfied_value(1) c show ?thesis by simp
qed

theorem run_result_content_witness:
  "''FLOWCHART LR\<newline>A-->D'' \<noteq> [] \<and> begins_with_keyword ''FLOWCHART LR\<newline>A-->D'' \<and>
   fst run_two_rounds =
     Inr \<lparr>prompt = ''req'', final_mermaid_code = ''FLOWCHART LR\<newline>A-->D'', html_path = None\<rparr>"
proof -
  have eq: "run (scripted_agent 2) ''req'' False ''out.html'' (fresh_world script_two_rounds) =
      (Inr \<lparr>prompt = ''req'', final_mermaid_code = ''FLOWCHART LR\<newline>A-->D'', html_path = None\<rparr>,
       snd run_two_rounds)"
    using run_two_rounds_value(1) by (simp add: run_two_rounds_def prod_eq_iff)
  from run_result_content [OF eq] run_two_rounds_value(1) show ?thesis by simp
qed


theorem run_other_exception_witness:
  "exc_type network_error \<noteq> ValidationError \<and> fst run_no_network = Inl network_error \<and>
   presenter_calls (run_events (fresh_world script_no_network) (snd run_no_network)) = 0 \<and>
   files (snd run_no_network) = files (fresh_world script_no_network)"
proof -
  let ?ev = "ReviseCall ''req'' ''flowchart TD\<newline>A-->B'' ''add C'' (Inl network_error)"
  have eq: "run (scripted_agent 3) ''req'' True ''out.html'' (fresh_world script_no_network) =
      (fst run_no_network, snd run_no_network)"
    by (simp add: run_no_network_def)
  have m: "?ev \<in> set (run_events (fresh_world script_no_network) (snd run_no_network))"
    by (simp add: run_no_network_value)
  have r: "raised ?ev = Some network_error" by simp
  have t: "exc_type network_error \<noteq> ValidationError" by (simp add: network_error_def)
  from run_other_exception [OF eq m r t] t show ?thesis by simp
qed


section \<open>The critique history of the graph\<close>

lemma generate_appends:
  "generate_mermaid cs st w = (Inr u, w1) \<Longrightarrow> one_more st (apply_update st u)"
  by (auto simp: generate_mermaid_def apply_update_def one_more_def Let_def
      split: prod.splits sum.splits content.splits)

lemma reflect_appends:
  "reflect_on_mermaid cs st w = (u, w1) \<Longrightarrow> one_more st (apply_update st u)"
  by (auto simp: reflect_on_mermaid_def apply_update_def one_more_def Let_def
      split: prod.splits sum.splits)

lemma generate_checkpoints:
  "generate_mermaid cs st w = (r, w1) \<Longrightarrow> checkpoints w1 = checkpoints w"
  by (auto simp: generate_mermaid_def Let_def split: prod.splits sum.splits content.splits)

lemma reflect_checkpoints:
  "reflect_on_mermaid cs st w = (u, w1) \<Longrightarrow> checkpoints w1 = checkpoints w"
  by (auto simp: reflect_on_mermaid_def Let_def split: prod.splits sum.splits)

lemma invoke_graph_checkpoints:
  "invoke_graph cs st w = (r, w') \<Longrightarrow>
     \<exists>new. checkpoints w' = checkpoints w @ new \<and> successively one_more (st # new) \<and>
       (\<forall>st'. r = Inr st' \<longrightarrow> st' = last (st # new))"
proof (induction cs st w arbitrary: r w' rule: invoke_graph.induct)
  case (1 cs st w)
  obtain g w1 where g: "generate_mermaid cs st w = (g, w1)" by (cases "generate_mermaid cs st w")
  show ?case
  proof (cases g)
    case (Inl e)
    with g "1.prems" have "r = Inl e" "w' = w1"
      by (simp_all add: invoke_graph.simps [of cs st w] Let_def)
    with generate_checkpoints [OF g] have "checkpoints w' = checkpoints w @ [] \<and>
        successively one_more (st # []) \<and> (\<forall>st'. r = Inr st' \<longrightarrow> st' = last (st # []))"
      by simp
    then show ?thesis by blast
  next
    case (Inr u1)
    let ?st1 = "apply_update st u1"
    let ?w1 = "w1\<lparr>checkpoints := checkpoints w1 @ [?st1]\<rparr>"
    obtain u2 w2 where rf: "reflect_on_mermaid cs ?st1 ?w1 = (u2, w2)"
      by (cases "reflect_on_mermaid cs ?st1 ?w1")
    let ?st2 = "apply_update ?st1 u2"
    let ?w2 = "w2\<lparr>checkpoints := checkpoints w2 @ [?st2]\<rparr>"
    from g Inr have g': "generate_mermaid cs st w = (Inr u1, w1)" by simp
    have a: "one_more st ?st1" using g' by (rule generate_appends)
    have b: "one_more ?st1 ?st2" using rf by (rule reflect_appends)
    have c: "checkpoints ?w2 = checkpoints w @ [?st1, ?st2]"
      using generate_checkpoints [OF g'] reflect_checkpoints [OF rf] by simp
    show ?thesis
    proof (cases "should_continue ?st2 = ''generate''")
      case True
      with g' rf "1.prems" have "invoke_graph cs ?st2 ?w2 = (r, w')"
        by (simp add: invoke_graph.simps [of cs st w] Let_def)
      from "1.IH" [OF g' [symmetric] refl refl rf [symmetric] refl True this]
      obtain new where n: "checkpoints w' = checkpoints ?w2 @ new"
          "successively one_more (?st2 # new)" "\<forall>st'. r = Inr st' \<longrightarrow> st' = last (?st2 # new)"
        by blast
      with a b c have "checkpoints w' = checkpoints w @ (?st1 # ?st2 # new) \<and>
          successively one_more (st # ?st1 # ?st2 # new) \<and>
          (\<forall>st'. r = Inr st' \<longrightarrow> st' = last (st # ?st1 # ?st2 # new))"
        by simp
      then show ?thesis by blast
    next
      case False
      with g' rf "1.prems" have "r = Inr ?st2" "w' = ?w2"
        by (simp_all add: invoke_graph.simps [of cs st w] Let_def)
      with a b c have "checkpoints w' = checkpoints w @ [?st1, ?st2] \<and>
          successively one_more (st # [?st1, ?st2]) \<and>
          (\<forall>st'. r = Inr st' \<longrightarrow> st' = last (st # [?st1, ?st2]))"
        by simp
      then show ?thesis by blast
    qed
  qed
qed

lemma successively_one_more_prefix:
  "successively one_more (a # xs) \<Longrightarrow> b \<in> set (a # xs) \<Longrightarrow>
     prefix (critique_history a) (critique_history b)"
proof (induction xs arbitrary: a)
  case Nil
  then show ?case by simp
next
  case (Cons x xs)
  from Cons.prems(1) have ax: "one_more a x" and s: "successively one_more (x # xs)" by simp_all
  from ax have p: "prefix (critique_history a) (critique_history x)" by (auto simp: one_more_def)
  show ?case
  proof (cases "b = a")
    case True
    then show ?thesis by simp
  next
    case False
    with Cons.prems(2) have "b \<in> set (x # xs)" by simp
    from Cons.IH [OF s this] p show ?thesis by (rule prefix_order.trans [rotated])
  qed
qed

text \<open>
  Claim C9. The critique history only grows at its end. The update of the generation
  node and the update of the reflection node each add one entry to the history and
  leave the entries before it as they are; the states that a run of the graph stores,
  from the state it starts with, each extend the history of the one before by one
  entry, so the history of an earlier state is a prefix of the history of every later
  one, and of the final state.
\<close>

theorem critique_history_append_only:
  "(generate_mermaid cs st w = (Inr u, w1) \<longrightarrow>
      (\<exists>entry. critique_history (apply_update st u) = critique_history st @ [entry])) \<and>
   (reflect_on_mermaid cs st w = (u', w2) \<longrightarrow>
      (\<exists>entry. critique_history (apply_update st u') = critique_history st @ [entry])) \<and>
   (invoke_graph cs st w = (r, w') \<longrightarrow>
      (\<exists>new. checkpoints w' = checkpoints w @ new \<and>
         successively one_more (st # new) \<and>
         sorted_wrt (\<lambda>a b. prefix (critique_history a) (critique_history b)) (st # new) \<and>
         (\<forall>st'. r = Inr st' \<longrightarrow>
            st' = last (st # new) \<and> prefix (critique_history st) (critique_history st'))))"
proof (intro conjI impI)
  assume "generate_mermaid cs st w = (Inr u, w1)"
  from generate_appends [OF this]
  show "\<exists>entry. critique_history (apply_update st u) = critique_history st @ [entry]"
    by (simp add: one_more_def)
next
  assume "reflect_on_mermaid cs st w = (u', w2)"
  from reflect_appends [OF this]
  show "\<exists>entry. critique_history (apply_update st u') = critique_history st @ [entry]"
    by (simp add: one_more_def)
next
  let ?P = "\<lambda>a b. prefix (critique_history a) (critique_history b)"
  assume "invoke_graph cs st w = (r, w')"
  from invoke_graph_checkpoints [OF this] obtain new where
    n: "checkpoints w' = checkpoints w @ new" "successively one_more (st # new)"
       "\<forall>st'. r = Inr st' \<longrightarrow> st' = last (st # new)"
    by blast
  have sp: "successively ?P (st # new)"
    using n(2) by (rule successively_mono) (auto simp: one_more_def)
  have "transp ?P" by (auto simp: transp_def)
  from successively_conv_sorted_wrt [OF this, of "st # new"] sp
  have s: "sorted_wrt ?P (st # new)" by blast
  have "\<forall>st'. r = Inr st' \<longrightarrow>
      st' = last (st # new) \<and> prefix (critique_history st) (critique_history st')"
  proof (intro allI impI)
    fix st' assume "r = Inr st'"
    with n(3) have l: "st' = last (st # new)" by simp
    then have "st' \<in> set (st # new)" by (metis last_in_set list.distinct(1))
    from successively_one_more_prefix [OF n(2) this] l
    show "st' = last (st # new) \<and> prefix (critique_history st) (critique_history st')" by simp
  qed
  with n s show "\<exists>new. checkpoints w' = checkpoints w @ new \<and>
         successively one_more (st # new) \<and>
         sorted_wrt ?P (st # new) \<and>
         (\<forall>st'. r = Inr st' \<longrightarrow>
            st' = last (st # new) \<and> prefix (critique_history st) (critique_history st'))"
    by blast
qed


theorem critique_history_append_only_witness:
  "critique_history (apply_update resumed_state first_update) =
     [''kept'', ''Revision 1 generated.''] \<and>
   critique_history (apply_update resumed_state first_reflection) = [''kept'', ''add C''] \<and>
   prefix [''kept'']
     (case fst (invoke_graph scripted_graph resumed_state (fresh_graph_world script_never)) of
        Inl _ \<Rightarrow> [] | Inr st' \<Rightarrow> critique_history st')"
proof -
  let ?w = "fresh_graph_world script_never"
  let ?G = "invoke_graph scripted_graph resumed_state ?w"
  have "fst (generate_mermaid scripted_graph resumed_state ?w) = Inr first_update"
    by code_simp
  then have g: "generate_mermaid scripted_graph resumed_state ?w =
      (Inr first_update, snd (generate_mermaid scripted_graph resumed_state ?w))"
    by (simp add: prod_eq_iff)
  have "fst (reflect_on_mermaid scripted_graph resumed_state ?w) = first_reflection"
    by code_simp
  then have r: "reflect_on_mermaid scripted_graph resumed_state ?w =
      (first_reflection, snd (reflect_on_mermaid scripted_graph resumed_state ?w))"
    by (simp add: prod_eq_iff)
  have i: "?G = (fst ?G, snd ?G)" by simp
  have h: "critique_history resumed_state = [''kept'']"
    by (simp add: resumed_state_def)
  obtain st' where s: "fst ?G = Inr st'"
    by (cases "fst ?G") (simp_all, code_simp)
  note t = critique_history_append_only [of scripted_graph resumed_state ?w first_update
      "snd (generate_mermaid scripted_graph resumed_state ?w)" first_reflection
      "snd (reflect_on_mermaid scripted_graph resumed_state ?w)" "fst ?G" "snd ?G"]
  from t g have 1: "\<exists>entry. critique_history (apply_update resumed_state first_update) =
      critique_history resumed_state @ [entry]" by blast
  from t r have 2: "\<exists>entry. critique_history (apply_update resumed_state first_reflection) =
      critique_history resumed_state @ [entry]" by blast
  from t i s have 3: "prefix (critique_history resumed_state) (critique_history st')" by blast
  from 1 have a: "critique_history (apply_update resumed_state first_update) =
     [''kept'', ''Revision 1 generated.'']"
    by (simp add: apply_update_def first_update_def h)
  from 2 have b: "critique_history (apply_update resumed_state first_reflection) = [''kept'', ''add C'']"
    by (simp add: apply_update_def first_reflection_def h)
  from 3 s h a b show ?thesis by simp
qed

section \<open>The two variants on one script\<close>














end
